theory Spec2Isabelle
  imports Main "HOL-Library.Word"
begin

section \<open>Data model\<close>

text \<open>
  JavaScript strings. The streamed text and everything assembled from it (event
  content, the transcript, chunks, persisted message content, the text handed to the
  testcase extraction) is measured and searched by the code (\<open>length\<close>,
  \<open>includes\<close>, a regular expression), all of which work on UTF-16 code units: such a
  text is a list of 16-bit words, one per code unit. Every other string (identifiers,
  object keys, statuses, type tags, tool names and outputs, JSON string values) is only
  compared, tested for emptiness, stored or passed on, and is kept as \<open>string\<close>.
  \<open>js\<close> writes a text of the first kind from its characters.
\<close>

type_synonym utf16 = "16 word list"

definition js :: "string \<Rightarrow> utf16" where
  "js s = map (\<lambda>c. of_nat (of_char c)) s"

text \<open>
  JSON values (tool inputs, coordinator event data, the parsed testcase document). A
  number whose value is an integer that a JavaScript number holds exactly (magnitude
  below \<open>2^53\<close>) is \<open>JNum\<close>; every other number, fractional or larger, is
  \<open>JFrac\<close>, kept by its literal.
\<close>

datatype json =
    JNull
  | JBool bool
  | JNum int
  | JFrac string
  | JStr string
  | JArr "json list"
  | JObj "(string \<times> json) list"

text \<open>
  \<open>AgentEvent\<close> of \<open>agent/types.ts\<close> (the type declaration is not among the sources;
  its variants are the ones \<open>handleAgentEvents\<close> discriminates on):
  text, thinking, tool_call (id, name, input), tool_result (id, name, output, success),
  coordinator_event (event_type, data). Any other \<open>type\<close> is \<open>UnknownEvent\<close>.
\<close>

datatype AgentEvent =
    TextEvent utf16
  | ThinkingEvent utf16
  | ToolCallEvent string string json
  | ToolResultEvent string string string bool
  | CoordinatorEvent string "(string \<times> json) list"
  | UnknownEvent string

text \<open>
  The objects handed to \<open>pushToSSEQueue\<close> (typed \<open>AgentMessageData\<close> by a cast in the
  source): chunk, thinking, tool_call and tool_result with the name already replaced,
  coordinator_event, testcases (status, count, testcases) and cancelled (message).
  The end-of-stream signal \<open>null\<close> is \<open>None\<close> of \<open>AgentMessageData option\<close>.
\<close>

datatype AgentMessageData =
    Chunk utf16
  | Thinking utf16
  | ToolCall string string json
  | ToolResult string string string bool
  | Coordinator string "(string \<times> json) list"
  | Testcases json json "json list"
  | Cancelled utf16

text \<open>The legacy message payload: \<open>content\<close> is a string or an array of blocks.\<close>

datatype ContentBlock =
    TextBlock "utf16 option"
  | ThinkingBlock "utf16 option"
  | OtherBlock

datatype MessageContent =
    ContentBlocks "ContentBlock list"
  | ContentString utf16
  | ContentOther

record LegacyMessage =
  lm_id :: "string option"
  lm_content :: MessageContent

text \<open>An element of \<open>reply.messages\<close>.\<close>

record PendingMessage =
  msg_id :: "string option"
  accumulated_content :: "utf16 option"
  msg_content :: MessageContent
  msg_role :: "string option"

record PendingReply =
  pr_conversationId :: string
  pr_replyId :: string
  pr_userId :: string
  messages :: "PendingMessage list"
  finished :: bool
  cancelled :: bool

record ChildProcess =
  pid :: "nat option"
  exitCode :: "int option"
  killed :: bool

text \<open>
  Rows of the durable store (Prisma): messages, agent sessions, coordinator plans. A
  point in time (\<open>new Date()\<close>) is a natural number, the milliseconds of the epoch.
\<close>

record MessageRow =
  row_id :: "string option"
  row_conversationId :: string
  row_role :: string
  row_content :: utf16

record AgentSessionRow =
  as_conversationId :: string
  as_userId :: string
  as_status :: string
  as_pid :: "nat option"
  as_finishedAt :: "nat option"

record CoordinatorPlan =
  objective :: string
  plan :: json
  activePhase :: "int option"
  completedPhases :: "int list"
  phaseOutputs :: "(string \<times> json) list option"
  plan_status :: string

text \<open>
  The six private maps and sets of \<open>AgentManager\<close>, followed by the external stores the
  manager writes: the Prisma tables and the Redis key \<open>agent:reply:{replyId}\<close> (of the
  JSON document stored under the key the \<open>status\<close> is kept).

  A callback registered by \<open>registerSSECallback\<close> is represented by the list of
  everything it has been called with so far (the callback of \<open>sendMessageStreaming\<close>
  pushes each argument onto its \<open>messageQueue\<close>). \<open>conversationAgents\<close> holds a
  JavaScript \<open>Set\<close> per conversation: a duplicate-free list in insertion order.
\<close>

record Manager =
  processes :: "string \<rightharpoonup> ChildProcess"
  conversationAgents :: "string \<rightharpoonup> string list"
  pendingReplies :: "string \<rightharpoonup> PendingReply"
  messageCallbacks :: "string \<rightharpoonup> AgentMessageData option list list"
  extractedTestcaseReplies :: "string set"
  hiddenToolCallIds :: "string set"
  db_messages :: "MessageRow list"
  db_agentSessions :: "string \<rightharpoonup> AgentSessionRow"
  db_plans :: "string \<rightharpoonup> CoordinatorPlan"
  redis_agentReply :: "string \<rightharpoonup> string"

definition emptyManager :: Manager where
  "emptyManager =
     \<lparr>processes = Map.empty, conversationAgents = Map.empty, pendingReplies = Map.empty,
      messageCallbacks = Map.empty, extractedTestcaseReplies = {}, hiddenToolCallIds = {},
      db_messages = [], db_agentSessions = Map.empty, db_plans = Map.empty,
      redis_agentReply = Map.empty\<rparr>"

section \<open>Tool display filter\<close>

text \<open>
  Modelled from the spec: \<open>agent/tool-display.ts\<close> (\<open>isToolHidden\<close>,
  \<open>getToolDisplayName\<close>) is not among the sources. Section 4.4: a set \<open>Hidden\<close> of raw
  tool names and a map \<open>Rename\<close> from raw names to display names;
  \<open>is_hidden(name) := name \<in> Hidden\<close>, \<open>display(name) := Rename[name] or name\<close>.
\<close>

record ToolDisplay =
  hiddenTools :: "string list"
  renameTools :: "(string \<times> string) list"

definition isToolHidden :: "ToolDisplay \<Rightarrow> string \<Rightarrow> bool" where
  "isToolHidden cfg name = (name \<in> set (hiddenTools cfg))"

definition getToolDisplayName :: "ToolDisplay \<Rightarrow> string \<Rightarrow> string" where
  "getToolDisplayName cfg name =
     (case map_of (renameTools cfg) name of None \<Rightarrow> name | Some d \<Rightarrow> d)"

section \<open>SSE callbacks\<close>

text \<open>\<open>registerSSECallback\<close>: create the array if absent, push the (fresh) callback.\<close>

definition registerSSECallback :: "string \<Rightarrow> Manager \<Rightarrow> Manager" where
  "registerSSECallback replyId s =
     s\<lparr>messageCallbacks := (messageCallbacks s)
          (replyId \<mapsto> (case messageCallbacks s replyId of None \<Rightarrow> [] | Some cbs \<Rightarrow> cbs) @ [[]])\<rparr>"

definition removeSSECallbacks :: "string \<Rightarrow> Manager \<Rightarrow> Manager" where
  "removeSSECallbacks replyId s =
     s\<lparr>messageCallbacks := (messageCallbacks s)(replyId := None)\<rparr>"

text \<open>
  \<open>pushToSSEQueue\<close>: call every callback registered for the reply with \<open>msg\<close>; with no
  entry for the reply nothing happens.
\<close>

definition pushToSSEQueue :: "string \<Rightarrow> AgentMessageData option \<Rightarrow> Manager \<Rightarrow> Manager" where
  "pushToSSEQueue replyId msg s =
     (case messageCallbacks s replyId of
        None \<Rightarrow> s
      | Some callbacks \<Rightarrow>
          s\<lparr>messageCallbacks := (messageCallbacks s)
               (replyId \<mapsto> map (\<lambda>cb. cb @ [msg]) callbacks)\<rparr>)"

section \<open>Testcase extraction\<close>

text \<open>\<open>String.prototype.includes\<close>: \<open>kw\<close> occurs in \<open>t\<close> as a contiguous substring.\<close>

fun str_includes :: "utf16 \<Rightarrow> utf16 \<Rightarrow> bool" where
  "str_includes [] kw = (kw = [])"
| "str_includes (c # cs) kw = (take (length kw) (c # cs) = kw \<or> str_includes cs kw)"

text \<open>A word between double quotes (code unit 0x22).\<close>

definition quoted :: "string \<Rightarrow> utf16" where
  "quoted w = 0x22 # js w @ [0x22]"

definition hint_keywords :: "utf16 list" where
  "hint_keywords =
     [quoted ''testcases'', quoted ''interface_name'',
      js ''generate_positive_cases'', js ''generate_negative_cases'']"

text \<open>
  \<open>textContent.match(/\{.*"testcases".*\}/s)\<close>, element 0 of the result. The match
  starts at the leftmost opening brace from which the pattern can match; both \<open>.*\<close>
  are greedy and (flag \<open>s\<close>) cross newlines, so the match ends at the last closing brace
  of the text, and the quoted word \<open>"testcases"\<close> must occur between the two. If the
  pattern cannot match from the first opening brace it cannot match from a later one
  (everything after a later brace is also after the first), so only the first is tried.
  The braces are the code units 0x7B and 0x7D.
\<close>

definition matchTestcases :: "utf16 \<Rightarrow> utf16 option" where
  "matchTestcases t =
     (case dropWhile (\<lambda>c. c \<noteq> 0x7B) t of
        [] \<Rightarrow> None
      | b # rest \<Rightarrow>
          (let upto = rev (dropWhile (\<lambda>c. c \<noteq> 0x7D) (rev rest))
           in if str_includes (butlast upto) (quoted ''testcases'') then Some (b # upto) else None))"

text \<open>Property read \<open>data.k\<close> on a non-null value: \<open>None\<close> is \<open>undefined\<close>.\<close>

fun get_prop :: "json \<Rightarrow> string \<Rightarrow> json option" where
  "get_prop (JObj kv) k = map_of kv k"
| "get_prop _ k = None"

text \<open>The operator \<open>??\<close>: the default replaces \<open>undefined\<close> and \<open>null\<close>.\<close>

fun nullish :: "json option \<Rightarrow> json \<Rightarrow> json" where
  "nullish None d = d"
| "nullish (Some JNull) d = d"
| "nullish (Some v) d = v"

text \<open>
  \<open>extractAndPushTestcases\<close>. \<open>parse\<close> stands for the built-in \<open>JSON.parse\<close>
  (\<open>None\<close> when it throws; an object is returned with each of its keys once). Every
  exception inside the \<open>try\<close> (a parse failure, the property read on \<open>null\<close>) ends
  the function without effect.
\<close>

definition extractAndPushTestcases ::
  "(utf16 \<Rightarrow> json option) \<Rightarrow> string \<Rightarrow> utf16 \<Rightarrow> Manager \<Rightarrow> Manager" where
  "extractAndPushTestcases parse replyId textContent s =
     (if replyId \<in> extractedTestcaseReplies s then s
      else if textContent = [] \<or> length textContent < 100 then s
      else if \<not> list_ex (str_includes textContent) hint_keywords then s
      else
        (case matchTestcases textContent of
           None \<Rightarrow> s
         | Some m \<Rightarrow>
             (case parse m of
                None \<Rightarrow> s
              | Some JNull \<Rightarrow> s
              | Some data \<Rightarrow>
                  (case get_prop data ''testcases'' of
                     Some (JArr testcases) \<Rightarrow>
                       if length testcases = 0 then s
                       else
                         pushToSSEQueue replyId
                           (Some (Testcases
                              (nullish (get_prop data ''status'') (JStr ''unknown''))
                              (nullish (get_prop data ''count'') (JNum (int (length testcases))))
                              testcases))
                           (s\<lparr>extractedTestcaseReplies :=
                                 insert replyId (extractedTestcaseReplies s)\<rparr>)
                   | _ \<Rightarrow> s))))"

section \<open>Durable store operations\<close>

text \<open>
  \<open>prisma.message.create\<close>: \<open>None\<close> when the call throws. The one failure that depends
  on the data is the primary key: a row given an explicit \<open>id\<close> that already exists is
  rejected. A row created without an id (\<open>row_id = None\<close>) receives a fresh generated
  one and is always accepted. Failures of the database itself are outside this model.
\<close>

definition message_create :: "MessageRow \<Rightarrow> MessageRow list \<Rightarrow> MessageRow list option" where
  "message_create row rows =
     (if row_id row \<noteq> None \<and> row_id row \<in> set (map row_id rows) then None
      else Some (rows @ [row]))"

text \<open>
  The loop shared, statement for statement, by \<open>handleAgentFinished\<close> and
  \<open>terminateAgent\<close>: every message of the reply with a non-empty accumulated content is
  created as an assistant row, with the message's id when it has a non-empty one; an
  exception of \<open>create\<close> is caught and the loop goes on.
\<close>

fun saveMessages :: "string \<Rightarrow> PendingMessage list \<Rightarrow> MessageRow list \<Rightarrow> MessageRow list" where
  "saveMessages conv [] rows = rows"
| "saveMessages conv (m # ms) rows =
     (let accumulated = (case accumulated_content m of None \<Rightarrow> [] | Some a \<Rightarrow> a)
      in if accumulated = [] then saveMessages conv ms rows
         else
           (let msgId = (case msg_id m of None \<Rightarrow> None
                         | Some i \<Rightarrow> if i = [] then None else Some i)
            in case message_create
                      \<lparr>row_id = msgId, row_conversationId = conv,
                       row_role = ''assistant'', row_content = accumulated\<rparr> rows of
                 None \<Rightarrow> saveMessages conv ms rows
               | Some rows' \<Rightarrow> saveMessages conv ms rows'))"

text \<open>
  \<open>prisma.agentSession.update({ where: { replyId }, data: { status, finishedAt:
  new Date() } })\<close> of \<open>handleAgentFinished\<close> and \<open>terminateAgent\<close>: \<open>now\<close> is the
  value of \<open>new Date()\<close>. The call throws when no row has this \<open>replyId\<close>; both
  callers catch and log.
\<close>

definition agentSession_finish :: "string \<Rightarrow> string \<Rightarrow> nat \<Rightarrow> Manager \<Rightarrow> Manager" where
  "agentSession_finish replyId st now s =
     (case db_agentSessions s replyId of
        None \<Rightarrow> s
      | Some row \<Rightarrow>
          s\<lparr>db_agentSessions := (db_agentSessions s)(replyId \<mapsto>
               row\<lparr>as_status := st, as_finishedAt := Some now\<rparr>)\<rparr>)"

section \<open>Plan service\<close>

record CoordinatorPlanData =
  cpd_objective :: string
  cpd_plan :: json
  cpd_activePhase :: "int option"
  cpd_completedPhases :: "int list option"
  cpd_phaseOutputs :: "(string \<times> json) list option"
  cpd_status :: "string option"

text \<open>\<open>upsertPlan\<close>: the \<open>update\<close> and the \<open>create\<close> branch write the same six columns.\<close>

definition upsertPlan :: "string \<Rightarrow> CoordinatorPlanData \<Rightarrow> Manager \<Rightarrow> Manager" where
  "upsertPlan conversationId d s =
     s\<lparr>db_plans := (db_plans s)(conversationId \<mapsto>
          \<lparr>objective = cpd_objective d,
           plan = cpd_plan d,
           activePhase = cpd_activePhase d,
           completedPhases = (case cpd_completedPhases d of None \<Rightarrow> [] | Some ps \<Rightarrow> ps),
           phaseOutputs = cpd_phaseOutputs d,
           plan_status = (case cpd_status d of None \<Rightarrow> ''running'' | Some st \<Rightarrow> st)\<rparr>)\<rparr>"

text \<open>
  Modelled from the spec: the Prisma schema is not among the sources. Section 3 gives
  \<open>active_phase\<close> as an integer or null and \<open>completed_phases\<close> as integers, and
  the service reads them as \<open>number\<close> and \<open>number[]\<close>; the columns are Prisma
  \<open>Int\<close> columns, which hold 32-bit signed integers. An \<open>update\<close> that carries any
  other number throws; \<open>updatePhaseStarted\<close> and \<open>updatePhaseCompleted\<close> catch and
  log, so nothing is written.
\<close>

definition prisma_int :: "int \<Rightarrow> bool" where
  "prisma_int n \<longleftrightarrow> - (2 ^ 31) \<le> n \<and> n < 2 ^ 31"

definition updatePhaseStarted :: "string \<Rightarrow> int \<Rightarrow> Manager \<Rightarrow> Manager" where
  "updatePhaseStarted conversationId phaseIndex s =
     (case db_plans s conversationId of
        None \<Rightarrow> s
      | Some p \<Rightarrow>
          if \<not> prisma_int phaseIndex then s
          else
            s\<lparr>db_plans := (db_plans s)(conversationId \<mapsto>
                 p\<lparr>activePhase := Some phaseIndex, plan_status := ''running''\<rparr>)\<rparr>)"

text \<open>
  The rendering of an integer in a template literal: for a magnitude below \<open>10^21\<close>,
  which every value of \<open>JNum\<close> and of an \<open>Int\<close> column has, the decimal digits
  with a leading minus sign for a negative number. (From \<open>10^21\<close> on JavaScript
  switches to the exponent notation; \<open>phaseKey\<close> is applied to values of an \<open>Int\<close>
  column only.)
\<close>

fun show_nat :: "nat \<Rightarrow> string" where
  "show_nat n =
     (if n < 10 then [''0123456789'' ! n]
      else show_nat (n div 10) @ [''0123456789'' ! (n mod 10)])"

declare show_nat.simps [simp del]

definition show_int :: "int \<Rightarrow> string" where
  "show_int i = (if i < 0 then CHR ''-'' # show_nat (nat (- i)) else show_nat (nat i))"

definition phaseKey :: "int \<Rightarrow> string" where
  "phaseKey phaseIndex = ''phase_'' @ show_int phaseIndex"

text \<open>
  The number a decimal numeral denotes, to state what the rendering of a phase in a
  key is: the digits are read from the left, a leading minus sign negates.
\<close>

definition read_nat :: "string \<Rightarrow> nat" where
  "read_nat ds = foldl (\<lambda>a c. 10 * a + (of_char c - 48)) 0 ds"

definition read_int :: "string \<Rightarrow> int" where
  "read_int ds =
     (case ds of
        [] \<Rightarrow> 0
      | c # cs \<Rightarrow> if c = CHR ''-'' then - int (read_nat cs) else int (read_nat ds))"

text \<open>Assignment \<open>obj[k] = v\<close> on an object: replace in place, or append the new key.\<close>

fun obj_set :: "string \<Rightarrow> json \<Rightarrow> (string \<times> json) list \<Rightarrow> (string \<times> json) list" where
  "obj_set k v [] = [(k, v)]"
| "obj_set k v ((k', v') # kvs) = (if k' = k then (k, v) # kvs else (k', v') # obj_set k v kvs)"

text \<open>JavaScript truthiness of a JSON value (objects and arrays are always truthy).\<close>

fun truthy :: "json \<Rightarrow> bool" where
  "truthy JNull = False"
| "truthy (JBool b) = b"
| "truthy (JNum n) = (n \<noteq> 0)"
| "truthy (JFrac x) = True"
| "truthy (JStr s) = (s \<noteq> [])"
| "truthy (JArr xs) = True"
| "truthy (JObj kv) = True"

text \<open>
  \<open>updatePhaseCompleted\<close>. \<open>phaseOutput\<close> is the optional third argument
  (\<open>None\<close> = \<open>undefined\<close>). With no plan row for the conversation the function
  logs a warning and returns; a phase that does not fit the integer columns makes the
  final \<open>update\<close> throw, which is caught.
\<close>

definition updatePhaseCompleted :: "string \<Rightarrow> int \<Rightarrow> json option \<Rightarrow> Manager \<Rightarrow> Manager" where
  "updatePhaseCompleted conversationId phaseIndex phaseOutput s =
     (case db_plans s conversationId of
        None \<Rightarrow> s
      | Some existingPlan \<Rightarrow>
          if \<not> prisma_int phaseIndex then s
          else
          (let completed =
                 (if phaseIndex \<in> set (completedPhases existingPlan)
                  then completedPhases existingPlan
                  else completedPhases existingPlan @ [phaseIndex]);
               existingOutputs =
                 (case phaseOutputs existingPlan of None \<Rightarrow> [] | Some kv \<Rightarrow> kv);
               outputs =
                 (case phaseOutput of
                    None \<Rightarrow> existingOutputs
                  | Some ev \<Rightarrow>
                      if truthy ev then obj_set (phaseKey phaseIndex) ev existingOutputs
                      else existingOutputs)
           in s\<lparr>db_plans := (db_plans s)(conversationId \<mapsto>
                  existingPlan\<lparr>completedPhases := completed,
                               phaseOutputs := Some outputs,
                               activePhase :=
                                 (if activePhase existingPlan = Some phaseIndex then None
                                  else activePhase existingPlan)\<rparr>)\<rparr>))"

definition updatePlanStatus :: "string \<Rightarrow> string \<Rightarrow> Manager \<Rightarrow> Manager" where
  "updatePlanStatus conversationId st s =
     (case db_plans s conversationId of
        None \<Rightarrow> s
      | Some p \<Rightarrow> s\<lparr>db_plans := (db_plans s)(conversationId \<mapsto> p\<lparr>plan_status := st\<rparr>)\<rparr>)"

text \<open>
  \<open>(data.phase as number) ?? 1\<close>: an absent or null phase is 1. The cast does not
  convert: a value that is not an integer number reaches Prisma, whose \<open>update\<close>
  rejects it for the integer column; the exception is caught inside the service, so
  nothing is written (\<open>None\<close>).
\<close>

definition phaseNumber :: "(string \<times> json) list \<Rightarrow> int option" where
  "phaseNumber d =
     (case map_of d ''phase'' of
        None \<Rightarrow> Some 1
      | Some JNull \<Rightarrow> Some 1
      | Some (JNum n) \<Rightarrow> Some n
      | Some _ \<Rightarrow> None)"

text \<open>\<open>data.evaluation\<close>: \<open>None\<close> is \<open>undefined\<close>.\<close>

definition evaluationOf :: "(string \<times> json) list \<Rightarrow> json option" where
  "evaluationOf d = map_of d ''evaluation''"

text \<open>
  \<open>handleCoordinatorEvent\<close>, given the conversation of the pending reply. In
  \<open>plan_created\<close> an objective that is neither absent, null nor a string is rejected
  by Prisma for the text column; the exception is caught by the handler's \<open>try\<close>.
\<close>

definition handleCoordinatorEvent ::
  "string \<Rightarrow> string \<Rightarrow> (string \<times> json) list \<Rightarrow> Manager \<Rightarrow> Manager" where
  "handleCoordinatorEvent replyId eventType d s =
     (case pendingReplies s replyId of
        None \<Rightarrow> s
      | Some reply \<Rightarrow>
          (let conversationId = pr_conversationId reply in
           if eventType = ''plan_created'' then
             (let planData = nullish (map_of d ''plan'') (JObj [])
              in case nullish (get_prop planData ''objective'') (JStr []) of
                   JStr obj \<Rightarrow>
                     upsertPlan conversationId
                       \<lparr>cpd_objective = obj, cpd_plan = planData, cpd_activePhase = None,
                        cpd_completedPhases = None, cpd_phaseOutputs = None,
                        cpd_status = Some ''running''\<rparr> s
                 | _ \<Rightarrow> s)
           else if eventType = ''phase_started'' then
             (case phaseNumber d of
                None \<Rightarrow> s
              | Some n \<Rightarrow> updatePhaseStarted conversationId n s)
           else if eventType = ''phase_completed'' then
             (case phaseNumber d of
                None \<Rightarrow> s
              | Some n \<Rightarrow> updatePhaseCompleted conversationId n (evaluationOf d) s)
           else if eventType = ''task_completed'' then
             updatePlanStatus conversationId ''completed'' s
           else if eventType = ''execution_failed'' \<or> eventType = ''task_failed'' then
             updatePlanStatus conversationId ''failed'' s
           else s))"

section \<open>Agent manager\<close>

record SpawnAgentParams =
  sp_conversationId :: string
  sp_replyId :: string
  sp_userId :: string
  sp_query :: string

text \<open>\<open>Set.prototype.add\<close> on the insertion-ordered representation.\<close>

definition set_add :: "string \<Rightarrow> string list \<Rightarrow> string list" where
  "set_add x xs = (if x \<in> set xs then xs else xs @ [x])"

text \<open>
  \<open>spawnAgent\<close>, cut at the call of \<open>spawnAgentProcess\<close>. The first part initialises
  the pending reply, the conversation index, the Redis key and the session row
  (\<open>create\<close> throws on an existing \<open>replyId\<close>, which is caught). The second part
  stores the child and moves the session to RUNNING; it contains two \<open>await\<close>s
  (the session update and the Redis write), at which other handlers of the event loop
  run while the child is already alive. \<open>child\<close> is the value returned by
  \<open>spawnAgentProcess\<close> (\<open>agent/process-spawner.ts\<close> is not among the sources).
\<close>

definition spawnAgent_init :: "SpawnAgentParams \<Rightarrow> Manager \<Rightarrow> Manager" where
  "spawnAgent_init params s =
     (let replyId = sp_replyId params;
          conversationId = sp_conversationId params;
          userId = sp_userId params;
          s1 = s\<lparr>pendingReplies := (pendingReplies s)(replyId \<mapsto>
                    \<lparr>pr_conversationId = conversationId, pr_replyId = replyId,
                     pr_userId = userId, messages = [], finished = False,
                     cancelled = False\<rparr>)\<rparr>;
          s2 = s1\<lparr>conversationAgents := (conversationAgents s1)(conversationId \<mapsto>
                    set_add replyId
                      (case conversationAgents s1 conversationId of
                         None \<Rightarrow> [] | Some rs \<Rightarrow> rs))\<rparr>;
          s3 = s2\<lparr>redis_agentReply := (redis_agentReply s2)(replyId \<mapsto> ''starting'')\<rparr>
      in case db_agentSessions s3 replyId of
           Some row \<Rightarrow> s3
         | None \<Rightarrow>
             s3\<lparr>db_agentSessions := (db_agentSessions s3)(replyId \<mapsto>
                   \<lparr>as_conversationId = conversationId, as_userId = userId,
                    as_status = ''STARTING'', as_pid = None, as_finishedAt = None\<rparr>)\<rparr>)"

definition spawnAgent_spawned :: "ChildProcess \<Rightarrow> SpawnAgentParams \<Rightarrow> Manager \<Rightarrow> Manager" where
  "spawnAgent_spawned child params s =
     s\<lparr>processes := (processes s)(sp_replyId params \<mapsto> child)\<rparr>"

definition spawnAgent_running :: "ChildProcess \<Rightarrow> SpawnAgentParams \<Rightarrow> Manager \<Rightarrow> Manager" where
  "spawnAgent_running child params s =
     (let replyId = sp_replyId params
      in case db_agentSessions s replyId of
           None \<Rightarrow> s
         | Some row \<Rightarrow>
             s\<lparr>db_agentSessions := (db_agentSessions s)(replyId \<mapsto>
                    row\<lparr>as_status := ''RUNNING'', as_pid := pid child\<rparr>),
               redis_agentReply := (redis_agentReply s)(replyId \<mapsto> ''running'')\<rparr>)"

definition spawnAgent :: "ChildProcess \<Rightarrow> SpawnAgentParams \<Rightarrow> Manager \<Rightarrow> Manager" where
  "spawnAgent child params s =
     spawnAgent_running child params (spawnAgent_spawned child params (spawnAgent_init params s))"

text \<open>The listener \<open>child.on('exit', ...)\<close> attached by \<open>spawnAgent\<close>.\<close>

definition onExit :: "string \<Rightarrow> string \<Rightarrow> Manager \<Rightarrow> Manager" where
  "onExit replyId conversationId s =
     (let s1 = s\<lparr>processes := (processes s)(replyId := None)\<rparr>
      in case conversationAgents s1 conversationId of
           None \<Rightarrow> s1
         | Some convAgents \<Rightarrow>
             (let convAgents' = removeAll replyId convAgents
              in if length convAgents' = 0
                 then s1\<lparr>conversationAgents := (conversationAgents s1)(conversationId := None)\<rparr>
                 else s1\<lparr>conversationAgents :=
                          (conversationAgents s1)(conversationId \<mapsto> convAgents')\<rparr>))"

text \<open>\<open>Array.prototype.findIndex\<close>: \<open>None\<close> is the result \<open>-1\<close>.\<close>

fun findIndex :: "('a \<Rightarrow> bool) \<Rightarrow> 'a list \<Rightarrow> nat option" where
  "findIndex P [] = None"
| "findIndex P (x # xs) =
     (if P x then Some 0 else (case findIndex P xs of None \<Rightarrow> None | Some i \<Rightarrow> Some (Suc i)))"

fun blocksText :: "ContentBlock list \<Rightarrow> utf16" where
  "blocksText [] = []"
| "blocksText (TextBlock t # bs) = (case t of None \<Rightarrow> [] | Some x \<Rightarrow> x) @ blocksText bs"
| "blocksText (b # bs) = blocksText bs"

fun blocksThinking :: "ContentBlock list \<Rightarrow> utf16" where
  "blocksThinking [] = []"
| "blocksThinking (ThinkingBlock t # bs) =
     (case t of None \<Rightarrow> [] | Some x \<Rightarrow> x) @ blocksThinking bs"
| "blocksThinking (b # bs) = blocksThinking bs"

text \<open>
  The locals \<open>textContent\<close> and \<open>thinkingContent\<close> of \<open>handleAgentMessage\<close>: the
  text and the thinking carried by this one message.
\<close>

definition messageText :: "LegacyMessage \<Rightarrow> utf16" where
  "messageText msg =
     (case lm_content msg of
        ContentBlocks bs \<Rightarrow> blocksText bs
      | ContentString c \<Rightarrow> c
      | ContentOther \<Rightarrow> [])"

definition messageThinking :: "LegacyMessage \<Rightarrow> utf16" where
  "messageThinking msg =
     (case lm_content msg of ContentBlocks bs \<Rightarrow> blocksThinking bs | _ \<Rightarrow> [])"

text \<open>
  \<open>handleAgentMessage\<close>: the legacy payload, accumulated per message id. The testcase
  extraction at the end is handed \<open>textContent\<close>, the text of this message alone.
\<close>

definition handleAgentMessage ::
  "(utf16 \<Rightarrow> json option) \<Rightarrow> string \<Rightarrow> LegacyMessage \<Rightarrow> Manager \<Rightarrow> Manager" where
  "handleAgentMessage parse replyId msg s =
     (case pendingReplies s replyId of
        None \<Rightarrow> s
      | Some reply \<Rightarrow>
          (let textContent = messageText msg;
               thinkingContent = messageThinking msg;
               messageId = (case lm_id msg of None \<Rightarrow> [] | Some i \<Rightarrow> i);
               msgs =
                 (case findIndex (\<lambda>m. msg_id m = Some messageId \<and> messageId \<noteq> [])
                         (messages reply) of
                    Some existingIdx \<Rightarrow>
                      (let existing = messages reply ! existingIdx;
                           accumulated =
                             (case accumulated_content existing of
                                None \<Rightarrow> [] | Some a \<Rightarrow> a) @ textContent
                       in (messages reply)[existingIdx :=
                            existing\<lparr>accumulated_content := Some accumulated,
                                     msg_content :=
                                       ContentBlocks [TextBlock (Some accumulated)]\<rparr>])
                  | None \<Rightarrow>
                      messages reply @
                        [\<lparr>msg_id = lm_id msg, accumulated_content = Some textContent,
                          msg_content = lm_content msg, msg_role = None\<rparr>]);
               s1 = s\<lparr>pendingReplies :=
                       (pendingReplies s)(replyId \<mapsto> reply\<lparr>messages := msgs\<rparr>)\<rparr>;
               s2 = (if thinkingContent \<noteq> []
                     then pushToSSEQueue replyId (Some (Thinking thinkingContent)) s1 else s1);
               s3 = (if textContent \<noteq> []
                     then pushToSSEQueue replyId (Some (Chunk textContent)) s2 else s2)
           in extractAndPushTestcases parse replyId textContent s3))"

text \<open>
  The body of the loop of \<open>handleAgentEvents\<close>, one event. \<open>reply\<close> is the object
  looked up once before the loop; the loop mutates it in place, so reading it back from
  the map in each iteration reads the same object.
\<close>

fun handleAgentEvent ::
  "ToolDisplay \<Rightarrow> (utf16 \<Rightarrow> json option) \<Rightarrow> string \<Rightarrow> AgentEvent \<Rightarrow> Manager \<Rightarrow> Manager" where
  "handleAgentEvent cfg parse replyId (TextEvent content) s =
     (case pendingReplies s replyId of
        None \<Rightarrow> s
      | Some reply \<Rightarrow>
          (let msgs =
                 (case messages reply of
                    existing # rest \<Rightarrow>
                      (let accumulated =
                             (case accumulated_content existing of
                                None \<Rightarrow> [] | Some a \<Rightarrow> a) @ content
                       in existing\<lparr>accumulated_content := Some accumulated,
                                   msg_content :=
                                     ContentBlocks [TextBlock (Some accumulated)]\<rparr> # rest)
                  | [] \<Rightarrow>
                      [\<lparr>msg_id = None, accumulated_content = Some content,
                        msg_content = ContentBlocks [TextBlock (Some content)],
                        msg_role = Some ''assistant''\<rparr>]);
               s1 = s\<lparr>pendingReplies :=
                       (pendingReplies s)(replyId \<mapsto> reply\<lparr>messages := msgs\<rparr>)\<rparr>;
               s2 = pushToSSEQueue replyId (Some (Chunk content)) s1;
               accumulatedText =
                 (case msgs of
                    [] \<Rightarrow> []
                  | m # _ \<Rightarrow> (case accumulated_content m of None \<Rightarrow> [] | Some a \<Rightarrow> a))
           in extractAndPushTestcases parse replyId accumulatedText s2))"
| "handleAgentEvent cfg parse replyId (ThinkingEvent content) s =
     pushToSSEQueue replyId (Some (Thinking content)) s"
| "handleAgentEvent cfg parse replyId (ToolCallEvent tid name inp) s =
     (if isToolHidden cfg name
      then s\<lparr>hiddenToolCallIds := insert tid (hiddenToolCallIds s)\<rparr>
      else pushToSSEQueue replyId (Some (ToolCall tid (getToolDisplayName cfg name) inp)) s)"
| "handleAgentEvent cfg parse replyId (ToolResultEvent tid name out ok) s =
     (if isToolHidden cfg name \<or> tid \<in> hiddenToolCallIds s then s
      else pushToSSEQueue replyId
             (Some (ToolResult tid (getToolDisplayName cfg name) out ok)) s)"
| "handleAgentEvent cfg parse replyId (CoordinatorEvent eventType d) s =
     pushToSSEQueue replyId (Some (Coordinator eventType d))
       (handleCoordinatorEvent replyId eventType d s)"
| "handleAgentEvent cfg parse replyId (UnknownEvent ty) s = s"

text \<open>\<open>handleAgentEvents\<close>: without a pending reply the batch is dropped with a warning.\<close>

definition handleAgentEvents ::
  "ToolDisplay \<Rightarrow> (utf16 \<Rightarrow> json option) \<Rightarrow> string \<Rightarrow> AgentEvent list \<Rightarrow> Manager \<Rightarrow> Manager" where
  "handleAgentEvents cfg parse replyId events s =
     (case pendingReplies s replyId of
        None \<Rightarrow> s
      | Some reply \<Rightarrow> foldl (\<lambda>st ev. handleAgentEvent cfg parse replyId ev st) s events)"

text \<open>
  \<open>handleAgentFinished\<close>: flush the messages of the pending reply (if there is one),
  push the end signal, mark the session COMPLETED with \<open>finishedAt\<close> the time \<open>now\<close>
  of the call, delete the Redis key, kill and forget the child.
\<close>

definition handleAgentFinished :: "string \<Rightarrow> nat \<Rightarrow> Manager \<Rightarrow> Manager" where
  "handleAgentFinished replyId now s =
     (let s1 = (case pendingReplies s replyId of
                  None \<Rightarrow> s
                | Some reply \<Rightarrow>
                    s\<lparr>pendingReplies :=
                         (pendingReplies s)(replyId \<mapsto> reply\<lparr>finished := True\<rparr>),
                      db_messages :=
                        saveMessages (pr_conversationId reply) (messages reply)
                          (db_messages s)\<rparr>);
          s2 = pushToSSEQueue replyId None s1;
          s3 = agentSession_finish replyId ''COMPLETED'' now s2;
          s4 = s3\<lparr>redis_agentReply := (redis_agentReply s3)(replyId := None)\<rparr>
      in s4\<lparr>processes := (processes s4)(replyId := None)\<rparr>)"

text \<open>The message of the synthetic cancelled event: seven characters, one code unit each.\<close>

definition cancelMessage :: utf16 where
  "cancelMessage = [0x7528, 0x6237, 0x7EC8, 0x6B62, 0x4E86, 0x8BF7, 0x6C42]"

text \<open>
  \<open>terminateAgent\<close>: the result is the returned boolean and the new state; \<open>now\<close> is
  the time of the call, written to \<open>finishedAt\<close> of the session row. The delayed
  SIGKILL is a timer on the child and changes nothing of the manager.
\<close>

definition terminateAgent :: "string \<Rightarrow> nat \<Rightarrow> Manager \<Rightarrow> bool \<times> Manager" where
  "terminateAgent replyId now s =
     (case pendingReplies s replyId of
        None \<Rightarrow> (False, s)
      | Some reply \<Rightarrow>
          (let s1 = s\<lparr>db_messages :=
                       saveMessages (pr_conversationId reply) (messages reply)
                         (db_messages s)\<rparr>;
               s2 = s1\<lparr>processes := (processes s1)(replyId := None)\<rparr>;
               s3 = s2\<lparr>pendingReplies :=
                        (pendingReplies s2)(replyId \<mapsto>
                           reply\<lparr>finished := True, cancelled := True\<rparr>)\<rparr>;
               s4 = pushToSSEQueue replyId (Some (Cancelled cancelMessage)) s3;
               s5 = pushToSSEQueue replyId None s4
           in (True, agentSession_finish replyId ''CANCELLED'' now s5)))"

text \<open>
  \<open>terminateConversation\<close>: the replies of the conversation are terminated one after
  the other; \<open>nowOf r\<close> is the time at which the termination of reply \<open>r\<close> reads the
  clock.
\<close>

definition terminateConversation :: "string \<Rightarrow> (string \<Rightarrow> nat) \<Rightarrow> Manager \<Rightarrow> Manager" where
  "terminateConversation conversationId nowOf s =
     (case conversationAgents s conversationId of
        None \<Rightarrow> s
      | Some replyIds \<Rightarrow> foldl (\<lambda>st r. snd (terminateAgent r (nowOf r) st)) s replyIds)"

definition isRunning :: "string \<Rightarrow> Manager \<Rightarrow> bool" where
  "isRunning replyId s =
     (case processes s replyId of
        None \<Rightarrow> False
      | Some child \<Rightarrow> exitCode child = None \<and> \<not> killed child)"

text \<open>\<open>cleanup\<close>: kill every child, then clear the six maps and sets.\<close>

definition cleanup :: "Manager \<Rightarrow> Manager" where
  "cleanup s =
     s\<lparr>processes := Map.empty, conversationAgents := Map.empty,
       pendingReplies := Map.empty, messageCallbacks := Map.empty,
       extractedTestcaseReplies := {}, hiddenToolCallIds := {}\<rparr>"

text \<open>The accumulated text of a reply: \<open>reply.messages[0]?._accumulated_content ?? ''\<close>.\<close>

definition accumulatedText :: "string \<Rightarrow> Manager \<Rightarrow> utf16" where
  "accumulatedText replyId s =
     (case pendingReplies s replyId of
        None \<Rightarrow> []
      | Some reply \<Rightarrow>
          (case messages reply of
             [] \<Rightarrow> []
           | m # _ \<Rightarrow> (case accumulated_content m of None \<Rightarrow> [] | Some a \<Rightarrow> a)))"

section \<open>Chat service and routes\<close>

text \<open>
  \<open>interruptAgent\<close> of the chat service: terminate, then broadcast on the socket bus
  (fire and forget, no state of the manager).
\<close>

definition interruptAgent :: "string \<Rightarrow> nat \<Rightarrow> Manager \<Rightarrow> bool \<times> Manager" where
  "interruptAgent replyId now s = terminateAgent replyId now s"

text \<open>
  The \<open>authenticate\<close> pre-handler (\<open>plugins/auth.ts\<close>). What it reads outside the
  request is collected in \<open>AuthEnv\<close>: \<open>jwt.verify\<close> with the configured secret
  (\<open>None\<close> when it throws; of the payload the claims \<open>sub\<close> and \<open>jti\<close> are read),
  the Redis key \<open>session:{userId}\<close>, and the \<open>status\<close> of the rows of the user table
  by id. The session lookup distinguishes an absent or empty value, a JSON document with
  its \<open>token_jti\<close> (\<open>None\<close> when the document has no such string), and a failure of
  Redis or of \<open>JSON.parse\<close>, which the handler logs and lets pass.
\<close>

record JwtPayload =
  jwt_sub :: "string option"
  jwt_jti :: "string option"

datatype SessionLookup =
    NoSession
  | SessionJti "string option"
  | SessionCheckFailed

record AuthEnv =
  jwt_verify :: "string \<Rightarrow> JwtPayload option"
  redis_session :: "string \<Rightarrow> SessionLookup"
  db_users :: "string \<rightharpoonup> string"

text \<open>\<open>String.prototype.split(' ')\<close>: the pieces between single spaces.\<close>

fun split_space :: "string \<Rightarrow> string list" where
  "split_space [] = [[]]"
| "split_space (c # cs) =
     (if c = CHR '' '' then [] # split_space cs
      else (case split_space cs of
              [] \<Rightarrow> [[c]]
            | p # ps \<Rightarrow> (c # p) # ps))"

text \<open>
  \<open>toLowerCase\<close> on a header value. Only the comparison with \<open>bearer\<close> reads the
  result, and among the letters that lower-case to one of \<open>b e a r\<close> there are only
  their ASCII capitals, so the letters \<open>A\<close> to \<open>Z\<close> are mapped and every other
  character is kept.
\<close>

definition toLowerCase :: "string \<Rightarrow> string" where
  "toLowerCase s =
     map (\<lambda>c. case map_of (zip ''ABCDEFGHIJKLMNOPQRSTUVWXYZ'' ''abcdefghijklmnopqrstuvwxyz'') c of
                None \<Rightarrow> c
              | Some l \<Rightarrow> l) s"

text \<open>\<open>extractToken\<close>: the argument is \<open>request.headers.authorization\<close>.\<close>

definition extractToken :: "string option \<Rightarrow> string option" where
  "extractToken authorization =
     (case authorization of
        None \<Rightarrow> None
      | Some authHeader \<Rightarrow>
          if authHeader = [] then None
          else (case split_space authHeader of
                  [scheme, token] \<Rightarrow>
                    if toLowerCase scheme = ''bearer'' then Some token else None
                | _ \<Rightarrow> None))"

text \<open>
  \<open>authenticate\<close>: \<open>Inl\<close> is the status code of the error thrown
  (\<open>UnauthorizedError\<close> 401, \<open>ForbiddenError\<close> 403), \<open>Inr\<close> the
  \<open>user_id\<close> of \<open>request.currentUser\<close>.
\<close>

definition authenticate :: "AuthEnv \<Rightarrow> string option \<Rightarrow> nat + string" where
  "authenticate env authorization =
     (case extractToken authorization of
        None \<Rightarrow> Inl 401
      | Some token \<Rightarrow>
          if token = [] then Inl 401
          else
            (case jwt_verify env token of
               None \<Rightarrow> Inl 401
             | Some payload \<Rightarrow>
                 (case jwt_sub payload of
                    None \<Rightarrow> Inl 401
                  | Some userId \<Rightarrow>
                      (case jwt_jti payload of
                         None \<Rightarrow> Inl 401
                       | Some jti \<Rightarrow>
                           if userId = [] \<or> jti = [] then Inl 401
                           else if (case redis_session env userId of
                                      SessionJti j \<Rightarrow> j \<noteq> Some jti
                                    | _ \<Rightarrow> False)
                           then Inl 401
                           else
                             (case db_users env userId of
                                None \<Rightarrow> Inl 401
                              | Some status \<Rightarrow>
                                  if status \<noteq> ''ACTIVE'' then Inl 403
                                  else Inr userId)))))"

text \<open>
  \<open>POST /api/chat/interrupt\<close>: the pre-handler, then the handler. \<open>authorization\<close>
  is the header of the request, \<open>reply_id\<close> the field of the body (\<open>None\<close> when it
  is missing or not a string), \<open>now\<close> the time of the call. The result is the HTTP
  status with the \<open>success\<close> field of the body. An error thrown by the pre-handler is
  answered by the error handler with its status code and \<open>success: false\<close>; a missing
  or empty \<open>reply_id\<close> fails \<open>interruptSchema\<close> and the error handler answers 400.
  The handler never reads \<open>request.currentUser\<close>.
\<close>

definition interruptRoute ::
  "AuthEnv \<Rightarrow> string option \<Rightarrow> string option \<Rightarrow> nat \<Rightarrow> Manager \<Rightarrow> (nat \<times> bool) \<times> Manager" where
  "interruptRoute env authorization reply_id now s =
     (case authenticate env authorization of
        Inl code \<Rightarrow> ((code, False), s)
      | Inr currentUser \<Rightarrow>
          (case reply_id of
             None \<Rightarrow> ((400, False), s)
           | Some r \<Rightarrow>
               if r = [] then ((400, False), s)
               else (case interruptAgent r now s of (success, s') \<Rightarrow> ((200, success), s'))))"

text \<open>
  What \<open>sendMessageStreaming\<close> yields and \<open>streamSSE\<close> writes: one frame per yielded
  object. \<open>ErrorFrame\<close> is the frame \<open>streamSSE\<close> writes when the generator throws.
  Of the \<open>done\<close> frame the conversation id is kept, its timestamp is not.
\<close>

datatype SSEFrame =
    StartFrame string string
  | MessageFrame AgentMessageData
  | DoneFrame string
  | HeartbeatFrame
  | ErrorFrame string

text \<open>
  The inner loop \<open>while (messageQueue.length > 0)\<close>: every queued message is yielded
  in order; the end signal \<open>null\<close> yields \<open>done\<close> and returns from the generator
  (\<open>True\<close>).
\<close>

fun drainQueue :: "string \<Rightarrow> AgentMessageData option list \<Rightarrow> SSEFrame list \<times> bool" where
  "drainQueue conv [] = ([], False)"
| "drainQueue conv (None # q) = ([DoneFrame conv], True)"
| "drainQueue conv (Some m # q) =
     (case drainQueue conv q of (ys, fin) \<Rightarrow> (MessageFrame m # ys, fin))"

text \<open>
  One turn of the outer \<open>while (true)\<close>, entered when a message arrives or the 30 s
  timer fires: \<open>available\<close> is what the callback has queued by then, \<open>running\<close> the
  value of \<open>isRunning(replyId)\<close> at the check after the inner loop. The boolean of the
  result says that the generator has returned.
\<close>

definition streamTurn ::
  "string \<Rightarrow> bool \<Rightarrow> AgentMessageData option list \<Rightarrow> SSEFrame list \<times> bool" where
  "streamTurn conv running available =
     (case drainQueue conv available of
        (ys, fin) \<Rightarrow>
          if fin then (ys, True)
          else if \<not> running then (ys @ [DoneFrame conv], True)
          else (ys @ [HeartbeatFrame], False))"

fun streamLoop ::
  "string \<Rightarrow> (bool \<times> AgentMessageData option list) list \<Rightarrow> SSEFrame list" where
  "streamLoop conv [] = []"
| "streamLoop conv ((running, available) # turns) =
     (case streamTurn conv running available of
        (ys, fin) \<Rightarrow> if fin then ys else ys @ streamLoop conv turns)"

text \<open>
  The frames of \<open>sendMessageStreaming\<close>: \<open>start\<close> is yielded before \<open>spawnAgent\<close> is
  called, then come the turns of the loop.
\<close>

definition sendMessageStreaming_frames ::
  "string \<Rightarrow> string \<Rightarrow> (bool \<times> AgentMessageData option list) list \<Rightarrow> SSEFrame list" where
  "sendMessageStreaming_frames conv replyId turns = StartFrame conv replyId # streamLoop conv turns"

text \<open>
  The effect of \<open>sendMessageStreaming\<close> on the manager between the \<open>start\<close> frame and
  the loop: \<open>await agentManager.spawnAgent(...)\<close>, then \<open>registerSSECallback\<close>.
  \<open>during\<close> is what other handlers of the event loop (agent callbacks arriving over
  HTTP) do at the \<open>await\<close>s of \<open>spawnAgent\<close> that follow the spawn of the child.
\<close>

definition sendMessageStreaming_setup ::
  "ChildProcess \<Rightarrow> SpawnAgentParams \<Rightarrow> (Manager \<Rightarrow> Manager) \<Rightarrow> Manager \<Rightarrow> Manager" where
  "sendMessageStreaming_setup child params during s =
     registerSSECallback (sp_replyId params)
       (spawnAgent_running child params
          (during (spawnAgent_spawned child params (spawnAgent_init params s))))"

section \<open>Sequences of manager calls\<close>

datatype Op =
    OpSpawnAgent ChildProcess SpawnAgentParams
  | OpHandleAgentMessage string LegacyMessage
  | OpHandleAgentEvents string "AgentEvent list"
  | OpHandleAgentFinished string nat
  | OpTerminateAgent string nat
  | OpTerminateConversation string "string \<Rightarrow> nat"
  | OpRegisterSSECallback string
  | OpRemoveSSECallbacks string
  | OpExit string string
  | OpCleanup

fun step :: "ToolDisplay \<Rightarrow> (utf16 \<Rightarrow> json option) \<Rightarrow> Op \<Rightarrow> Manager \<Rightarrow> Manager" where
  "step cfg parse (OpSpawnAgent child params) s = spawnAgent child params s"
| "step cfg parse (OpHandleAgentMessage r msg) s = handleAgentMessage parse r msg s"
| "step cfg parse (OpHandleAgentEvents r evs) s = handleAgentEvents cfg parse r evs s"
| "step cfg parse (OpHandleAgentFinished r now) s = handleAgentFinished r now s"
| "step cfg parse (OpTerminateAgent r now) s = snd (terminateAgent r now s)"
| "step cfg parse (OpTerminateConversation c nowOf) s = terminateConversation c nowOf s"
| "step cfg parse (OpRegisterSSECallback r) s = registerSSECallback r s"
| "step cfg parse (OpRemoveSSECallbacks r) s = removeSSECallbacks r s"
| "step cfg parse (OpExit r c) s = onExit r c s"
| "step cfg parse OpCleanup s = cleanup s"

definition run :: "ToolDisplay \<Rightarrow> (utf16 \<Rightarrow> json option) \<Rightarrow> Op list \<Rightarrow> Manager \<Rightarrow> Manager" where
  "run cfg parse ops s = foldl (\<lambda>st op. step cfg parse op st) s ops"

fun is_testcases :: "AgentMessageData option \<Rightarrow> bool" where
  "is_testcases (Some (Testcases st n tcs)) = True"
| "is_testcases _ = False"

fun is_chunk :: "AgentMessageData option \<Rightarrow> bool" where
  "is_chunk (Some (Chunk c)) = True"
| "is_chunk _ = False"

section \<open>The scenarios of the specification as concrete values\<close>

definition child0 :: ChildProcess where
  "child0 = \<lparr>pid = Some 4242, exitCode = None, killed = False\<rparr>"

definition params0 :: SpawnAgentParams where
  "params0 =
     \<lparr>sp_conversationId = ''c1'', sp_replyId = ''r1'', sp_userId = ''u1'', sp_query = ''hi''\<rparr>"

text \<open>Scenario S2: \<open>Hidden = {internal_ping}\<close>, one rename.\<close>

definition cfg0 :: ToolDisplay where
  "cfg0 = \<lparr>hiddenTools = [''internal_ping''], renameTools = [(''fetch'', ''Fetch page'')]\<rparr>"

text \<open>
  A text of exactly 100 code units: 83 spaces followed by the 17 characters of a JSON
  object with a one-element \<open>testcases\<close> array, and the value \<open>JSON.parse\<close> returns for
  that object (and for no other input of this partial parser).
\<close>

definition doc0 :: utf16 where
  "doc0 = js ''{'' @ quoted ''testcases'' @ js '':[1]}''"

definition text100 :: utf16 where
  "text100 = replicate 83 0x20 @ doc0"

text \<open>
  A text of 107 code units in two pieces, 90 spaces and the object, and the legacy
  message with id \<open>m1\<close> that carries a piece.
\<close>

definition pad90 :: utf16 where
  "pad90 = replicate 90 0x20"

definition legacy0 :: "utf16 \<Rightarrow> LegacyMessage" where
  "legacy0 t = \<lparr>lm_id = Some ''m1'', lm_content = ContentString t\<rparr>"

definition parse0 :: "utf16 \<Rightarrow> json option" where
  "parse0 t = (if t = doc0 then Some (JObj [(''testcases'', JArr [JNum 1])]) else None)"

text \<open>A manager with reply \<open>r1\<close> spawned and one SSE callback registered (scenario S1).\<close>

definition started0 :: Manager where
  "started0 = registerSSECallback ''r1'' (spawnAgent child0 params0 emptyManager)"

text \<open>
  The coordinator events of a reply applied one after the other, as the loop of
  \<open>handleAgentEvents\<close> applies them to the plan of the conversation.
\<close>

definition projectEvents ::
  "string \<Rightarrow> (string \<times> (string \<times> json) list) list \<Rightarrow> Manager \<Rightarrow> Manager" where
  "projectEvents replyId evs s =
     foldl (\<lambda>st ev. handleCoordinatorEvent replyId (fst ev) (snd ev) st) s evs"

text \<open>Scenario S4 up to the start of phase 1.\<close>

definition planned0 :: Manager where
  "planned0 =
     handleAgentEvents cfg0 parse0 ''r1''
       [CoordinatorEvent ''plan_created'' [(''plan'', JObj [(''objective'', JStr ''O'')])],
        CoordinatorEvent ''phase_started'' [(''phase'', JNum 1)]] started0"

text \<open>Scenario S3 before the interrupt: one text event \<open>partial\<close> has arrived.\<close>

definition partial0 :: Manager where
  "partial0 = handleAgentEvents cfg0 parse0 ''r1'' [TextEvent (js ''partial'')] started0"

text \<open>
  A streaming send on the empty manager during which the agent's first batch (the text
  \<open>Hello\<close> of scenario S1) arrives before \<open>spawnAgent\<close> has returned.
\<close>

definition early0 :: Manager where
  "early0 =
     sendMessageStreaming_setup child0 params0
       (handleAgentEvents cfg0 parse0 ''r1'' [TextEvent (js ''Hello'')]) emptyManager"

text \<open>
  An authentication environment with three users: \<open>u1\<close> and \<open>u2\<close> have ACTIVE
  accounts and the bearer tokens \<open>t1\<close> and \<open>t2\<close>, \<open>u2\<close> with a session in Redis;
  the account of \<open>u3\<close> (token \<open>t3\<close>) is disabled.
\<close>

definition env0 :: AuthEnv where
  "env0 =
     \<lparr>jwt_verify =
        (\<lambda>t. if t = ''t1'' then Some \<lparr>jwt_sub = Some ''u1'', jwt_jti = Some ''j1''\<rparr>
             else if t = ''t2'' then Some \<lparr>jwt_sub = Some ''u2'', jwt_jti = Some ''j2''\<rparr>
             else if t = ''t3'' then Some \<lparr>jwt_sub = Some ''u3'', jwt_jti = Some ''j3''\<rparr>
             else None),
      redis_session = (\<lambda>u. if u = ''u2'' then SessionJti (Some ''j2'') else NoSession),
      db_users = [''u1'' \<mapsto> ''ACTIVE'', ''u2'' \<mapsto> ''ACTIVE'', ''u3'' \<mapsto> ''DISABLED'']\<rparr>"

text \<open>
  The one-shot discipline of testcase extraction as a state invariant: a callback of a
  reply has received at most one \<open>testcases\<close> message, and none at all while the reply
  is not in \<open>extractedTestcaseReplies\<close>.
\<close>

definition testcases_once :: "Manager \<Rightarrow> bool" where
  "testcases_once s \<longleftrightarrow>
     (\<forall>r cbs cb. messageCallbacks s r = Some cbs \<longrightarrow> cb \<in> set cbs \<longrightarrow>
        length (filter is_testcases cb) \<le> (if r \<in> extractedTestcaseReplies s then 1 else 0))"

section \<open>Texts\<close>

lemma js_Nil [simp]: "js [] = []"
  by (simp add: js_def)

lemma js_Cons [simp]: "js (c # cs) = of_nat (of_char c) # js cs"
  by (simp add: js_def)

lemma length_js [simp]: "length (js s) = length s"
  by (simp add: js_def)

section \<open>Frame lemmas: what each operation leaves alone\<close>

lemma pushToSSEQueue_frame [simp]:
  "processes (pushToSSEQueue r m s) = processes s"
  "conversationAgents (pushToSSEQueue r m s) = conversationAgents s"
  "pendingReplies (pushToSSEQueue r m s) = pendingReplies s"
  "extractedTestcaseReplies (pushToSSEQueue r m s) = extractedTestcaseReplies s"
  "hiddenToolCallIds (pushToSSEQueue r m s) = hiddenToolCallIds s"
  "db_messages (pushToSSEQueue r m s) = db_messages s"
  "db_agentSessions (pushToSSEQueue r m s) = db_agentSessions s"
  "db_plans (pushToSSEQueue r m s) = db_plans s"
  "redis_agentReply (pushToSSEQueue r m s) = redis_agentReply s"
  by (simp_all add: pushToSSEQueue_def split: option.split)

lemma extractAndPushTestcases_frame [simp]:
  "processes (extractAndPushTestcases p r t s) = processes s"
  "conversationAgents (extractAndPushTestcases p r t s) = conversationAgents s"
  "pendingReplies (extractAndPushTestcases p r t s) = pendingReplies s"
  "hiddenToolCallIds (extractAndPushTestcases p r t s) = hiddenToolCallIds s"
  "db_messages (extractAndPushTestcases p r t s) = db_messages s"
  "db_agentSessions (extractAndPushTestcases p r t s) = db_agentSessions s"
  "db_plans (extractAndPushTestcases p r t s) = db_plans s"
  "redis_agentReply (extractAndPushTestcases p r t s) = redis_agentReply s"
  by (simp_all add: extractAndPushTestcases_def split: option.split json.split)

lemma handleCoordinatorEvent_frame [simp]:
  "processes (handleCoordinatorEvent r e d s) = processes s"
  "conversationAgents (handleCoordinatorEvent r e d s) = conversationAgents s"
  "pendingReplies (handleCoordinatorEvent r e d s) = pendingReplies s"
  "messageCallbacks (handleCoordinatorEvent r e d s) = messageCallbacks s"
  "extractedTestcaseReplies (handleCoordinatorEvent r e d s) = extractedTestcaseReplies s"
  "hiddenToolCallIds (handleCoordinatorEvent r e d s) = hiddenToolCallIds s"
  "db_messages (handleCoordinatorEvent r e d s) = db_messages s"
  "db_agentSessions (handleCoordinatorEvent r e d s) = db_agentSessions s"
  "redis_agentReply (handleCoordinatorEvent r e d s) = redis_agentReply s"
  by (simp_all add: handleCoordinatorEvent_def upsertPlan_def updatePhaseStarted_def
      updatePhaseCompleted_def updatePlanStatus_def Let_def split: option.split json.split)

lemma handleAgentEvent_pending:
  "pendingReplies s r = Some rep \<Longrightarrow>
   \<exists>rep'. pendingReplies (handleAgentEvent cfg p r ev s) r = Some rep'"
  by (cases ev) (simp_all add: Let_def)

lemma handleAgentEvent_hidden_mono:
  "hiddenToolCallIds s \<subseteq> hiddenToolCallIds (handleAgentEvent cfg p r ev s)"
  by (cases ev) (auto simp: Let_def split: option.split)

lemma foldl_handleAgentEvent_pending:
  "pendingReplies s r = Some rep \<Longrightarrow>
   \<exists>rep'. pendingReplies (foldl (\<lambda>st ev. handleAgentEvent cfg p r ev st) s evs) r = Some rep'"
proof (induction evs arbitrary: s rep)
  case Nil
  then show ?case by simp
next
  case (Cons ev evs)
  from handleAgentEvent_pending [OF Cons.prems, of cfg p ev]
  obtain rep1 where "pendingReplies (handleAgentEvent cfg p r ev s) r = Some rep1" ..
  from Cons.IH [OF this] show ?case by simp
qed

lemma handleAgentEvents_snoc:
  assumes "pendingReplies s r = Some rep"
  shows "handleAgentEvents cfg p r (pre @ [ev]) s =
         handleAgentEvent cfg p r ev (handleAgentEvents cfg p r pre s)"
  using assms by (simp add: handleAgentEvents_def)

lemma handleAgentEvents_pending:
  "pendingReplies s r = Some rep \<Longrightarrow>
   \<exists>rep'. pendingReplies (handleAgentEvents cfg p r evs s) r = Some rep'"
  using foldl_handleAgentEvent_pending [of s r rep cfg p evs]
  by (simp add: handleAgentEvents_def)

lemma agentSession_finish_frame [simp]:
  "processes (agentSession_finish r st now s) = processes s"
  "conversationAgents (agentSession_finish r st now s) = conversationAgents s"
  "pendingReplies (agentSession_finish r st now s) = pendingReplies s"
  "messageCallbacks (agentSession_finish r st now s) = messageCallbacks s"
  "extractedTestcaseReplies (agentSession_finish r st now s) = extractedTestcaseReplies s"
  "hiddenToolCallIds (agentSession_finish r st now s) = hiddenToolCallIds s"
  "db_messages (agentSession_finish r st now s) = db_messages s"
  "db_plans (agentSession_finish r st now s) = db_plans s"
  "redis_agentReply (agentSession_finish r st now s) = redis_agentReply s"
  by (simp_all add: agentSession_finish_def split: option.split)

lemma spawnAgent_frame [simp]:
  "messageCallbacks (spawnAgent ch ps s) = messageCallbacks s"
  "extractedTestcaseReplies (spawnAgent ch ps s) = extractedTestcaseReplies s"
  "hiddenToolCallIds (spawnAgent ch ps s) = hiddenToolCallIds s"
  "db_messages (spawnAgent ch ps s) = db_messages s"
  "db_plans (spawnAgent ch ps s) = db_plans s"
  by (simp_all add: spawnAgent_def spawnAgent_running_def spawnAgent_spawned_def
      spawnAgent_init_def Let_def split: option.split)

lemma onExit_frame [simp]:
  "pendingReplies (onExit r c s) = pendingReplies s"
  "messageCallbacks (onExit r c s) = messageCallbacks s"
  "extractedTestcaseReplies (onExit r c s) = extractedTestcaseReplies s"
  "hiddenToolCallIds (onExit r c s) = hiddenToolCallIds s"
  "db_messages (onExit r c s) = db_messages s"
  "db_agentSessions (onExit r c s) = db_agentSessions s"
  "db_plans (onExit r c s) = db_plans s"
  "redis_agentReply (onExit r c s) = redis_agentReply s"
  by (simp_all add: onExit_def Let_def split: option.split)

lemma handleAgentMessage_frame [simp]:
  "processes (handleAgentMessage p r m s) = processes s"
  "conversationAgents (handleAgentMessage p r m s) = conversationAgents s"
  "hiddenToolCallIds (handleAgentMessage p r m s) = hiddenToolCallIds s"
  "db_messages (handleAgentMessage p r m s) = db_messages s"
  "db_agentSessions (handleAgentMessage p r m s) = db_agentSessions s"
  "db_plans (handleAgentMessage p r m s) = db_plans s"
  "redis_agentReply (handleAgentMessage p r m s) = redis_agentReply s"
  by (simp_all add: handleAgentMessage_def Let_def split: option.split)

lemma handleAgentFinished_frame [simp]:
  "conversationAgents (handleAgentFinished r now s) = conversationAgents s"
  "extractedTestcaseReplies (handleAgentFinished r now s) = extractedTestcaseReplies s"
  "hiddenToolCallIds (handleAgentFinished r now s) = hiddenToolCallIds s"
  "db_plans (handleAgentFinished r now s) = db_plans s"
  "messageCallbacks (handleAgentFinished r now s) = messageCallbacks (pushToSSEQueue r None s)"
  by (simp_all add: handleAgentFinished_def Let_def pushToSSEQueue_def
      agentSession_finish_def split: option.split)

lemma terminateAgent_frame [simp]:
  "conversationAgents (snd (terminateAgent r now s)) = conversationAgents s"
  "extractedTestcaseReplies (snd (terminateAgent r now s)) = extractedTestcaseReplies s"
  "hiddenToolCallIds (snd (terminateAgent r now s)) = hiddenToolCallIds s"
  "db_plans (snd (terminateAgent r now s)) = db_plans s"
  "redis_agentReply (snd (terminateAgent r now s)) = redis_agentReply s"
  by (simp_all add: terminateAgent_def Let_def split: option.split)

lemma foldl_terminateAgent_frame [simp]:
  "conversationAgents (foldl (\<lambda>st r. snd (terminateAgent r (nowOf r) st)) s rs) = conversationAgents s"
  "extractedTestcaseReplies (foldl (\<lambda>st r. snd (terminateAgent r (nowOf r) st)) s rs) =
     extractedTestcaseReplies s"
  "hiddenToolCallIds (foldl (\<lambda>st r. snd (terminateAgent r (nowOf r) st)) s rs) = hiddenToolCallIds s"
  "db_plans (foldl (\<lambda>st r. snd (terminateAgent r (nowOf r) st)) s rs) = db_plans s"
  by (induction rs arbitrary: s) simp_all

lemma terminateConversation_frame [simp]:
  "conversationAgents (terminateConversation c nowOf s) = conversationAgents s"
  "extractedTestcaseReplies (terminateConversation c nowOf s) = extractedTestcaseReplies s"
  "hiddenToolCallIds (terminateConversation c nowOf s) = hiddenToolCallIds s"
  "db_plans (terminateConversation c nowOf s) = db_plans s"
  by (simp_all add: terminateConversation_def split: option.split)

lemma registerSSECallback_frame [simp]:
  "processes (registerSSECallback r s) = processes s"
  "conversationAgents (registerSSECallback r s) = conversationAgents s"
  "pendingReplies (registerSSECallback r s) = pendingReplies s"
  "extractedTestcaseReplies (registerSSECallback r s) = extractedTestcaseReplies s"
  "hiddenToolCallIds (registerSSECallback r s) = hiddenToolCallIds s"
  "db_messages (registerSSECallback r s) = db_messages s"
  "db_agentSessions (registerSSECallback r s) = db_agentSessions s"
  "db_plans (registerSSECallback r s) = db_plans s"
  "redis_agentReply (registerSSECallback r s) = redis_agentReply s"
  by (simp_all add: registerSSECallback_def)

lemma removeSSECallbacks_frame [simp]:
  "processes (removeSSECallbacks r s) = processes s"
  "conversationAgents (removeSSECallbacks r s) = conversationAgents s"
  "pendingReplies (removeSSECallbacks r s) = pendingReplies s"
  "extractedTestcaseReplies (removeSSECallbacks r s) = extractedTestcaseReplies s"
  "hiddenToolCallIds (removeSSECallbacks r s) = hiddenToolCallIds s"
  "db_messages (removeSSECallbacks r s) = db_messages s"
  "db_agentSessions (removeSSECallbacks r s) = db_agentSessions s"
  "db_plans (removeSSECallbacks r s) = db_plans s"
  "redis_agentReply (removeSSECallbacks r s) = redis_agentReply s"
  by (simp_all add: removeSSECallbacks_def)

lemma foldl_handleAgentEvent_hidden_mono:
  "hiddenToolCallIds s \<subseteq>
   hiddenToolCallIds (foldl (\<lambda>st ev. handleAgentEvent cfg p r ev st) s evs)"
proof (induction evs arbitrary: s)
  case Nil
  show ?case by simp
next
  case (Cons ev evs)
  have "hiddenToolCallIds s \<subseteq> hiddenToolCallIds (handleAgentEvent cfg p r ev s)"
    by (rule handleAgentEvent_hidden_mono)
  also have "\<dots> \<subseteq> hiddenToolCallIds
      (foldl (\<lambda>st ev. handleAgentEvent cfg p r ev st) (handleAgentEvent cfg p r ev s) evs)"
    by (rule Cons.IH)
  finally show ?case by simp
qed

lemma handleAgentEvents_hidden_mono:
  "hiddenToolCallIds s \<subseteq> hiddenToolCallIds (handleAgentEvents cfg p r evs s)"
  using foldl_handleAgentEvent_hidden_mono [of s cfg p r evs]
  by (simp add: handleAgentEvents_def split: option.split)

lemma step_hidden_mono:
  "op \<noteq> OpCleanup \<Longrightarrow> hiddenToolCallIds s \<subseteq> hiddenToolCallIds (step cfg p op s)"
  by (cases op) (simp_all add: handleAgentEvents_hidden_mono)

lemma run_hidden_mono:
  "OpCleanup \<notin> set ops \<Longrightarrow> hiddenToolCallIds s \<subseteq> hiddenToolCallIds (run cfg p ops s)"
proof (induction ops arbitrary: s)
  case Nil
  show ?case by (simp add: run_def)
next
  case (Cons op ops)
  from Cons.prems have ne: "op \<noteq> OpCleanup" and rest: "OpCleanup \<notin> set ops" by auto
  have "hiddenToolCallIds s \<subseteq> hiddenToolCallIds (step cfg p op s)"
    using ne by (rule step_hidden_mono)
  also have "\<dots> \<subseteq> hiddenToolCallIds (run cfg p ops (step cfg p op s))"
    using rest by (rule Cons.IH)
  finally show ?case by (simp add: run_def)
qed

lemma handleAgentEvents_tool_result_hidden_id:
  assumes "x \<in> hiddenToolCallIds s"
  shows "handleAgentEvents cfg p r (pre @ [ToolResultEvent x name out ok]) s =
         handleAgentEvents cfg p r pre s"
proof (cases "pendingReplies s r")
  case None
  then show ?thesis by (simp add: handleAgentEvents_def)
next
  case (Some rep)
  have "x \<in> hiddenToolCallIds (handleAgentEvents cfg p r pre s)"
    using assms handleAgentEvents_hidden_mono [of s cfg p r pre] by blast
  then show ?thesis
    using Some by (simp add: handleAgentEvents_snoc)
qed

section \<open>The concrete scenario states\<close>

lemma started0_pending:
  "pendingReplies started0 ''r1'' = Some \<lparr>pr_conversationId = ''c1'', pr_replyId = ''r1'',
       pr_userId = ''u1'', messages = [], finished = False, cancelled = False\<rparr>"
  by (simp add: started0_def registerSSECallback_def spawnAgent_def spawnAgent_running_def
      spawnAgent_spawned_def spawnAgent_init_def emptyManager_def params0_def child0_def Let_def)

lemma started0_callbacks: "messageCallbacks started0 ''r1'' = Some [[]]"
  by (simp add: started0_def registerSSECallback_def emptyManager_def)

lemma started0_plans: "db_plans started0 = Map.empty"
  by (simp add: started0_def emptyManager_def)

lemma started0_hidden: "hiddenToolCallIds started0 = {}"
  by (simp add: started0_def emptyManager_def)

lemma started0_extracted: "extractedTestcaseReplies started0 = {}"
  by (simp add: started0_def emptyManager_def)

lemma started0_db_messages: "db_messages started0 = []"
  by (simp add: started0_def emptyManager_def)

lemma planned0_pending:
  "pendingReplies planned0 ''r1'' = Some \<lparr>pr_conversationId = ''c1'', pr_replyId = ''r1'',
       pr_userId = ''u1'', messages = [], finished = False, cancelled = False\<rparr>"
  by (simp add: planned0_def handleAgentEvents_def started0_pending)

lemma planned0_plan:
  "db_plans planned0 ''c1'' =
     Some \<lparr>objective = ''O'', plan = JObj [(''objective'', JStr ''O'')],
           activePhase = Some 1, completedPhases = [], phaseOutputs = None,
           plan_status = ''running''\<rparr>"
  by (simp add: planned0_def handleAgentEvents_def started0_pending started0_plans
      handleCoordinatorEvent_def upsertPlan_def updatePhaseStarted_def phaseNumber_def
      prisma_int_def Let_def)

section \<open>Plan projection\<close>

lemma digit_char: "d < 10 \<Longrightarrow> of_char (''0123456789'' ! d) = (48 + d :: nat)"
proof -
  assume "d < 10"
  then have "d = 0 \<or> d = 1 \<or> d = 2 \<or> d = 3 \<or> d = 4 \<or> d = 5 \<or> d = 6 \<or> d = 7 \<or> d = 8
    \<or> d = 9" by arith
  then show ?thesis by (elim disjE) simp_all
qed

lemma digit_not_minus: "d < 10 \<Longrightarrow> ''0123456789'' ! d \<noteq> CHR ''-''"
proof -
  assume "d < 10"
  then have "d = 0 \<or> d = 1 \<or> d = 2 \<or> d = 3 \<or> d = 4 \<or> d = 5 \<or> d = 6 \<or> d = 7 \<or> d = 8
    \<or> d = 9" by arith
  then show ?thesis by (elim disjE) simp_all
qed

lemma read_nat_snoc: "read_nat (ds @ [c]) = 10 * read_nat ds + (of_char c - 48)"
  by (simp add: read_nat_def)

lemma read_nat_show_nat: "read_nat (show_nat n) = n"
proof (induction n rule: show_nat.induct)
  case (1 n)
  show ?case
  proof (cases "n < 10")
    case True
    then show ?thesis by (subst show_nat.simps) (simp add: read_nat_def digit_char)
  next
    case False
    have "read_nat (show_nat n) =
          10 * read_nat (show_nat (n div 10)) + (of_char (''0123456789'' ! (n mod 10)) - 48)"
      using False by (subst show_nat.simps) (simp add: read_nat_snoc)
    also have "\<dots> = 10 * (n div 10) + n mod 10"
      using 1 [OF False] by (simp add: digit_char)
    finally show ?thesis by simp
  qed
qed

lemma show_nat_head: "\<exists>d cs. d < 10 \<and> show_nat n = (''0123456789'' ! d) # cs"
proof (induction n rule: show_nat.induct)
  case (1 n)
  show ?case
  proof (cases "n < 10")
    case True
    then show ?thesis by (subst show_nat.simps) auto
  next
    case False
    from 1 [OF False] obtain d cs where "d < 10"
      and "show_nat (n div 10) = (''0123456789'' ! d) # cs" by blast
    then show ?thesis using False by (subst show_nat.simps) auto
  qed
qed

lemma read_int_show_int: "read_int (show_int i) = i"
proof (cases "i < 0")
  case True
  then show ?thesis by (simp add: read_int_def show_int_def read_nat_show_nat)
next
  case False
  obtain d cs where d: "d < 10" and eq: "show_nat (nat i) = (''0123456789'' ! d) # cs"
    using show_nat_head by blast
  have "read_int (show_nat (nat i)) = int (read_nat (show_nat (nat i)))"
    using digit_not_minus [OF d] by (simp add: read_int_def eq)
  then show ?thesis using False by (simp add: show_int_def read_nat_show_nat)
qed

lemma phaseKey_read: "\<exists>ds. phaseKey p = ''phase_'' @ ds \<and> read_int ds = p"
  by (simp add: phaseKey_def read_int_show_int)

lemma phaseKey_inj: "phaseKey q = phaseKey p \<Longrightarrow> q = p"
proof -
  assume "phaseKey q = phaseKey p"
  then have "show_int q = show_int p" by (simp add: phaseKey_def)
  then have "read_int (show_int q) = read_int (show_int p)" by simp
  then show ?thesis by (simp add: read_int_show_int)
qed

lemma map_of_obj_set: "map_of (obj_set k v kvs) = (map_of kvs)(k \<mapsto> v)"
  by (induction kvs) (auto simp: fun_eq_iff)

lemma show_nat_digit: "n < 10 \<Longrightarrow> show_nat n = [''0123456789'' ! n]"
  by (simp add: show_nat.simps)

lemma phaseKey_1: "phaseKey 1 = ''phase_1''"
  by (simp add: phaseKey_def show_int_def show_nat_digit)

lemma phaseKey_2: "phaseKey 2 = ''phase_2''"
  by (simp add: phaseKey_def show_int_def show_nat_digit)

lemma updatePhaseCompleted_plan:
  assumes "db_plans s c = Some pl" and "prisma_int p"
  shows "db_plans (updatePhaseCompleted c p ev s) c =
     Some (pl\<lparr>completedPhases :=
                 (if p \<in> set (completedPhases pl) then completedPhases pl
                  else completedPhases pl @ [p]),
               phaseOutputs :=
                 Some (case ev of
                         None \<Rightarrow> (case phaseOutputs pl of None \<Rightarrow> [] | Some kv \<Rightarrow> kv)
                       | Some e \<Rightarrow>
                           if truthy e
                           then obj_set (phaseKey p) e
                                  (case phaseOutputs pl of None \<Rightarrow> [] | Some kv \<Rightarrow> kv)
                           else (case phaseOutputs pl of None \<Rightarrow> [] | Some kv \<Rightarrow> kv)),
               activePhase := (if activePhase pl = Some p then None else activePhase pl)\<rparr>)"
  using assms by (simp add: updatePhaseCompleted_def Let_def)

lemma updatePhaseStarted_completed:
  assumes "db_plans s c = Some pl"
  shows "\<exists>pl'. db_plans (updatePhaseStarted c' n s) c = Some pl' \<and>
               completedPhases pl' = completedPhases pl"
proof (cases "db_plans s c'")
  case None
  then show ?thesis using assms by (simp add: updatePhaseStarted_def)
next
  case (Some q)
  then show ?thesis using assms by (cases "c' = c") (simp_all add: updatePhaseStarted_def)
qed

lemma updatePlanStatus_completed:
  assumes "db_plans s c = Some pl"
  shows "\<exists>pl'. db_plans (updatePlanStatus c' st s) c = Some pl' \<and>
               completedPhases pl' = completedPhases pl"
proof (cases "db_plans s c'")
  case None
  then show ?thesis using assms by (simp add: updatePlanStatus_def)
next
  case (Some q)
  then show ?thesis using assms by (cases "c' = c") (simp_all add: updatePlanStatus_def)
qed

lemma updatePhaseCompleted_completed:
  assumes "db_plans s c = Some pl"
  shows "\<exists>pl'. db_plans (updatePhaseCompleted c' n ev s) c = Some pl' \<and>
               set (completedPhases pl) \<subseteq> set (completedPhases pl')"
proof (cases "db_plans s c'")
  case None
  then show ?thesis using assms by (simp add: updatePhaseCompleted_def)
next
  case (Some q)
  show ?thesis
  proof (cases "c' = c")
    case True
    with assms show ?thesis by (auto simp: updatePhaseCompleted_def Let_def)
  next
    case False
    with assms Some show ?thesis by (simp add: updatePhaseCompleted_def Let_def)
  qed
qed

lemma handleCoordinatorEvent_plan_created:
  assumes "pendingReplies s r = Some reply"
    and "map_of d ''plan'' = Some (JObj kv)" and "map_of kv ''objective'' = Some (JStr obj)"
  shows "db_plans (handleCoordinatorEvent r ''plan_created'' d s) (pr_conversationId reply) =
         Some \<lparr>objective = obj, plan = JObj kv, activePhase = None, completedPhases = [],
               phaseOutputs = None, plan_status = ''running''\<rparr>"
  using assms by (simp add: handleCoordinatorEvent_def upsertPlan_def Let_def)

lemma handleCoordinatorEvent_completed_mono:
  assumes "db_plans s c = Some pl" and "ty \<noteq> ''plan_created''"
  shows "\<exists>pl'. db_plans (handleCoordinatorEvent r ty d s) c = Some pl' \<and>
               set (completedPhases pl) \<subseteq> set (completedPhases pl')"
proof (cases "pendingReplies s r")
  case None
  then show ?thesis using assms(1) by (simp add: handleCoordinatorEvent_def)
next
  case (Some reply)
  let ?c' = "pr_conversationId reply"
  consider (started) "ty = ''phase_started''" | (completed) "ty = ''phase_completed''"
    | (finished_ok) "ty = ''task_completed''"
    | (failed) "ty = ''execution_failed'' \<or> ty = ''task_failed''"
    | (other) "ty \<noteq> ''phase_started''" "ty \<noteq> ''phase_completed''" "ty \<noteq> ''task_completed''"
        "ty \<noteq> ''execution_failed''" "ty \<noteq> ''task_failed''"
    by blast
  then show ?thesis
  proof cases
    case started
    show ?thesis
    proof (cases "phaseNumber d")
      case None
      then show ?thesis using Some started assms(1) by (simp add: handleCoordinatorEvent_def)
    next
      case (Some n)
      have "handleCoordinatorEvent r ty d s = updatePhaseStarted ?c' n s"
        using \<open>pendingReplies s r = Some reply\<close> started Some
        by (simp add: handleCoordinatorEvent_def)
      then show ?thesis
        using updatePhaseStarted_completed [OF assms(1), of ?c' n] by auto
    qed
  next
    case completed
    show ?thesis
    proof (cases "phaseNumber d")
      case None
      then show ?thesis using Some completed assms(1) by (simp add: handleCoordinatorEvent_def)
    next
      case (Some n)
      have "handleCoordinatorEvent r ty d s = updatePhaseCompleted ?c' n (evaluationOf d) s"
        using \<open>pendingReplies s r = Some reply\<close> completed Some
        by (simp add: handleCoordinatorEvent_def)
      then show ?thesis
        using updatePhaseCompleted_completed [OF assms(1), of ?c' n "evaluationOf d"] by simp
    qed
  next
    case finished_ok
    have "handleCoordinatorEvent r ty d s = updatePlanStatus ?c' ''completed'' s"
      using Some finished_ok by (simp add: handleCoordinatorEvent_def)
    then show ?thesis
      using updatePlanStatus_completed [OF assms(1), of ?c' "''completed''"] by auto
  next
    case failed
    have "handleCoordinatorEvent r ty d s = updatePlanStatus ?c' ''failed'' s"
      using Some failed by (auto simp: handleCoordinatorEvent_def)
    then show ?thesis
      using updatePlanStatus_completed [OF assms(1), of ?c' "''failed''"] by auto
  next
    case other
    have "handleCoordinatorEvent r ty d s = s"
      using Some other assms(2) by (simp add: handleCoordinatorEvent_def)
    then show ?thesis using assms(1) by simp
  qed
qed

lemma projectEvents_completed_mono:
  assumes "db_plans s c = Some pl" and "''plan_created'' \<notin> fst ` set evs"
  shows "\<exists>pl'. db_plans (projectEvents r evs s) c = Some pl' \<and>
               set (completedPhases pl) \<subseteq> set (completedPhases pl')"
  using assms
proof (induction evs arbitrary: s pl)
  case Nil
  then show ?case by (simp add: projectEvents_def)
next
  case (Cons ev evs)
  from Cons.prems have ne: "fst ev \<noteq> ''plan_created''"
    and rest: "''plan_created'' \<notin> fst ` set evs" by auto
  from handleCoordinatorEvent_completed_mono [OF Cons.prems(1) ne, of r "snd ev"]
  obtain pl1 where p1: "db_plans (handleCoordinatorEvent r (fst ev) (snd ev) s) c = Some pl1"
    and sub1: "set (completedPhases pl) \<subseteq> set (completedPhases pl1)" by blast
  from Cons.IH [OF p1 rest]
  obtain pl2 where
    p2: "db_plans (projectEvents r evs (handleCoordinatorEvent r (fst ev) (snd ev) s)) c = Some pl2"
    and sub2: "set (completedPhases pl1) \<subseteq> set (completedPhases pl2)" by blast
  from p2 sub1 sub2 show ?case by (auto simp: projectEvents_def)
qed



section \<open>Tool events\<close>

text \<open>
  C1. In a batch processed for a pending reply, after any prefix \<open>pre\<close> of the batch:
  a \<open>tool_call\<close> whose raw name is hidden only adds its id to \<open>hiddenToolCallIds\<close>
  (nothing is pushed); any other \<open>tool_call\<close> is pushed with its display name; a
  \<open>tool_result\<close> leaves the state unchanged (is dropped) iff its name is hidden or its
  id is in the set, and is otherwise pushed with its display name.
\<close>

theorem tool_events_filtered:
  assumes "pendingReplies s replyId = Some reply"
  shows
    "(let s1 = handleAgentEvents cfg parse replyId pre s in
        handleAgentEvents cfg parse replyId (pre @ [ToolCallEvent tid name inp]) s =
          (if isToolHidden cfg name
           then s1\<lparr>hiddenToolCallIds := insert tid (hiddenToolCallIds s1)\<rparr>
           else pushToSSEQueue replyId
                  (Some (ToolCall tid (getToolDisplayName cfg name) inp)) s1) \<and>
        handleAgentEvents cfg parse replyId (pre @ [ToolResultEvent tid name out ok]) s =
          (if isToolHidden cfg name \<or> tid \<in> hiddenToolCallIds s1 then s1
           else pushToSSEQueue replyId
                  (Some (ToolResult tid (getToolDisplayName cfg name) out ok)) s1))"
  using assms by (simp add: handleAgentEvents_snoc Let_def)

text \<open>
  Scenario S2 on the started reply: the hidden call \<open>t1\<close> and its result are dropped,
  call and result \<open>t2\<close> reach the callback under the display name.
\<close>

theorem tool_events_filtered_witness:
  "messageCallbacks
     (handleAgentEvents cfg0 parse0 ''r1''
        ([ToolCallEvent ''t1'' ''internal_ping'' (JObj []),
          ToolCallEvent ''t2'' ''fetch'' (JObj []),
          ToolResultEvent ''t1'' ''internal_ping'' ''ok'' True] @
         [ToolResultEvent ''t2'' ''fetch'' ''body'' True]) started0) ''r1'' =
   Some [[Some (ToolCall ''t2'' ''Fetch page'' (JObj [])),
          Some (ToolResult ''t2'' ''Fetch page'' ''body'' True)]]"
  using tool_events_filtered [OF started0_pending, of cfg0 parse0
      "[ToolCallEvent ''t1'' ''internal_ping'' (JObj []),
        ToolCallEvent ''t2'' ''fetch'' (JObj []),
        ToolResultEvent ''t1'' ''internal_ping'' ''ok'' True]"
      "''t2''" "''fetch''" "JObj []" "''body''" True]
  by (simp add: Let_def handleAgentEvents_def started0_pending started0_callbacks
      started0_hidden isToolHidden_def getToolDisplayName_def cfg0_def pushToSSEQueue_def)

section \<open>The hidden tool-call ids are process-wide\<close>

text \<open>
  C10. \<open>hiddenToolCallIds\<close> is one set of the manager, not a set per reply. Once a
  hidden \<open>tool_call\<close> with id \<open>x\<close> has been processed for reply \<open>r1\<close>, then after any
  sequence of manager calls without \<open>cleanup\<close> (spawns, event batches, finished
  signals, terminations, exits, callback registrations, for any replies) the set has
  lost nothing, and a \<open>tool_result\<close> with id \<open>x\<close> is dropped in a batch of any reply
  \<open>r2\<close>, whatever its name. \<open>cleanup\<close> empties the set.
\<close>

theorem hidden_ids_process_wide:
  assumes "pendingReplies s r1 = Some reply1"
    and "isToolHidden cfg name"
    and "OpCleanup \<notin> set ops"
  shows
    "(let s1 = handleAgentEvents cfg parse r1 [ToolCallEvent x name inp] s;
          s2 = run cfg parse ops s1
      in x \<in> hiddenToolCallIds s1 \<and>
         hiddenToolCallIds s1 \<subseteq> hiddenToolCallIds s2 \<and>
         handleAgentEvents cfg parse r2 (pre @ [ToolResultEvent x name' out ok]) s2 =
           handleAgentEvents cfg parse r2 pre s2 \<and>
         hiddenToolCallIds (cleanup s2) = {})"
proof -
  define s1 where "s1 = handleAgentEvents cfg parse r1 [ToolCallEvent x name inp] s"
  define s2 where "s2 = run cfg parse ops s1"
  have in1: "x \<in> hiddenToolCallIds s1"
    using assms(1,2) by (simp add: s1_def handleAgentEvents_def)
  have mono: "hiddenToolCallIds s1 \<subseteq> hiddenToolCallIds s2"
    unfolding s2_def using assms(3) by (rule run_hidden_mono)
  from in1 mono have in2: "x \<in> hiddenToolCallIds s2" by blast
  have dropped: "handleAgentEvents cfg parse r2 (pre @ [ToolResultEvent x name' out ok]) s2 =
           handleAgentEvents cfg parse r2 pre s2"
    using in2 by (rule handleAgentEvents_tool_result_hidden_id)
  have cleared: "hiddenToolCallIds (cleanup s2) = {}"
    by (simp add: cleanup_def)
  from in1 mono dropped cleared show ?thesis
    by (simp add: Let_def s1_def s2_def)
qed

theorem hidden_ids_process_wide_witness:
  "''t1'' \<in> hiddenToolCallIds
     (run cfg0 parse0
        [OpHandleAgentFinished ''r1'' 5, OpTerminateAgent ''r1'' 6, OpExit ''r1'' ''c1'']
        (handleAgentEvents cfg0 parse0 ''r1''
           [ToolCallEvent ''t1'' ''internal_ping'' (JObj [])] started0))"
proof -
  have h2: "isToolHidden cfg0 ''internal_ping''"
    by (simp add: isToolHidden_def cfg0_def)
  have h3: "OpCleanup \<notin>
      set [OpHandleAgentFinished ''r1'' 5, OpTerminateAgent ''r1'' 6, OpExit ''r1'' ''c1'']"
    by simp
  from hidden_ids_process_wide [OF started0_pending h2 h3,
      where parse = parse0 and x = "''t1''" and inp = "JObj []" and ?r2.0 = "''r2''"
        and pre = "[]" and name' = "''fetch''" and out = "''ok''" and ok = True]
  show ?thesis by (auto simp: Let_def)
qed

section \<open>Text events and the transcript\<close>

lemma pushToSSEQueue_callbacks:
  "messageCallbacks (pushToSSEQueue r m s) =
     (messageCallbacks s)(r := map_option (map (\<lambda>cb. cb @ [m])) (messageCallbacks s r))"
  by (auto simp: pushToSSEQueue_def fun_eq_iff split: option.split)

lemma extractAndPushTestcases_cases:
  "extractAndPushTestcases p r t s = s \<or>
   (\<exists>st n tcs. extractAndPushTestcases p r t s =
      pushToSSEQueue r (Some (Testcases st n tcs))
        (s\<lparr>extractedTestcaseReplies := insert r (extractedTestcaseReplies s)\<rparr>))"
  by (simp add: extractAndPushTestcases_def split: option.split json.split) blast

lemma extractAndPushTestcases_chunks:
  "map_option (map (filter is_chunk)) (messageCallbacks (extractAndPushTestcases p r t s) r') =
   map_option (map (filter is_chunk)) (messageCallbacks s r')"
proof -
  from extractAndPushTestcases_cases [of p r t s]
  show ?thesis
  proof
    assume "extractAndPushTestcases p r t s = s"
    then show ?thesis by simp
  next
    assume "\<exists>st n tcs. extractAndPushTestcases p r t s =
      pushToSSEQueue r (Some (Testcases st n tcs))
        (s\<lparr>extractedTestcaseReplies := insert r (extractedTestcaseReplies s)\<rparr>)"
    then obtain st n tcs where "extractAndPushTestcases p r t s =
      pushToSSEQueue r (Some (Testcases st n tcs))
        (s\<lparr>extractedTestcaseReplies := insert r (extractedTestcaseReplies s)\<rparr>)" by blast
    then show ?thesis
      by (cases "messageCallbacks s r") (simp_all add: pushToSSEQueue_callbacks comp_def)
  qed
qed

lemma handleTextEvent_unfold:
  assumes "pendingReplies s r = Some reply"
  shows "handleAgentEvent cfg p r (TextEvent c) s =
     extractAndPushTestcases p r (accumulatedText r s @ c)
       (pushToSSEQueue r (Some (Chunk c))
          (s\<lparr>pendingReplies := (pendingReplies s)(r \<mapsto> reply\<lparr>messages :=
               (case messages reply of
                  [] \<Rightarrow> [\<lparr>msg_id = None, accumulated_content = Some c,
                           msg_content = ContentBlocks [TextBlock (Some c)],
                           msg_role = Some ''assistant''\<rparr>]
                | m # rest \<Rightarrow>
                    m\<lparr>accumulated_content := Some (accumulatedText r s @ c),
                      msg_content := ContentBlocks [TextBlock (Some (accumulatedText r s @ c))]\<rparr>
                    # rest)\<rparr>)\<rparr>))"
  using assms by (simp add: accumulatedText_def Let_def split: list.split)

lemma handleTextEvent_accumulated:
  assumes "pendingReplies s r = Some reply"
  shows "accumulatedText r (handleAgentEvent cfg p r (TextEvent c) s) = accumulatedText r s @ c"
  by (subst handleTextEvent_unfold [OF assms])
    (simp add: accumulatedText_def assms split: list.split)

lemma handleTextEvent_chunks:
  assumes "pendingReplies s r = Some reply"
  shows "map_option (map (filter is_chunk))
           (messageCallbacks (handleAgentEvent cfg p r (TextEvent c) s) r) =
         map_option (map (\<lambda>cb. filter is_chunk cb @ [Some (Chunk c)])) (messageCallbacks s r)"
  by (subst handleTextEvent_unfold [OF assms])
    (simp add: extractAndPushTestcases_chunks pushToSSEQueue_callbacks option.map_comp comp_def)

lemma handleTextEvent_messages:
  assumes "pendingReplies s r = Some reply"
  shows "\<exists>reply'. pendingReplies (handleAgentEvent cfg p r (TextEvent c) s) r = Some reply' \<and>
     pr_conversationId reply' = pr_conversationId reply \<and>
     (messages reply = [] \<longrightarrow> messages reply' =
        [\<lparr>msg_id = None, accumulated_content = Some c,
          msg_content = ContentBlocks [TextBlock (Some c)], msg_role = Some ''assistant''\<rparr>]) \<and>
     (\<forall>m rest. messages reply = m # rest \<longrightarrow>
        messages reply' =
          m\<lparr>accumulated_content := Some (accumulatedText r s @ c),
            msg_content := ContentBlocks [TextBlock (Some (accumulatedText r s @ c))]\<rparr> # rest)"
  by (subst handleTextEvent_unfold [OF assms]) simp


lemma handleAgentEvent_db_messages [simp]:
  "db_messages (handleAgentEvent cfg p r ev s) = db_messages s"
  by (cases ev) (simp_all add: Let_def split: option.split)

lemma handleAgentEvents_db_messages [simp]:
  "db_messages (handleAgentEvents cfg p r evs s) = db_messages s"
proof -
  have "db_messages (foldl (\<lambda>st ev. handleAgentEvent cfg p r ev st) s evs) = db_messages s"
    by (induction evs arbitrary: s) simp_all
  then show ?thesis by (simp add: handleAgentEvents_def split: option.split)
qed

lemma handleAgentEvents_text_snoc:
  assumes "pendingReplies s r = Some reply"
  shows "handleAgentEvents cfg p r (map TextEvent (cs @ [c])) s =
         handleAgentEvent cfg p r (TextEvent c) (handleAgentEvents cfg p r (map TextEvent cs) s)"
  using handleAgentEvents_snoc [OF assms, of cfg p "map TextEvent cs" "TextEvent c"] by simp

lemma text_batch_accumulated:
  assumes "pendingReplies s r = Some reply"
  shows "accumulatedText r (handleAgentEvents cfg p r (map TextEvent cs) s) =
         accumulatedText r s @ concat cs"
proof (induction cs rule: rev_induct)
  case Nil
  show ?case using assms by (simp add: handleAgentEvents_def)
next
  case (snoc c cs)
  from handleAgentEvents_pending [OF assms, of cfg p "map TextEvent cs"]
  obtain rep' where
    pend: "pendingReplies (handleAgentEvents cfg p r (map TextEvent cs) s) r = Some rep'" ..
  show ?case
    by (simp only: handleAgentEvents_text_snoc [OF assms] handleTextEvent_accumulated [OF pend]
        snoc.IH) simp
qed

lemma text_batch_chunks:
  assumes "pendingReplies s r = Some reply"
  shows "map_option (map (filter is_chunk))
           (messageCallbacks (handleAgentEvents cfg p r (map TextEvent cs) s) r) =
         map_option (map (\<lambda>cb. filter is_chunk cb @ map (\<lambda>c. Some (Chunk c)) cs))
           (messageCallbacks s r)"
proof (induction cs rule: rev_induct)
  case Nil
  show ?case using assms by (simp add: handleAgentEvents_def option.map_comp comp_def)
next
  case (snoc c cs)
  from handleAgentEvents_pending [OF assms, of cfg p "map TextEvent cs"]
  obtain rep' where
    pend: "pendingReplies (handleAgentEvents cfg p r (map TextEvent cs) s) r = Some rep'" ..
  have "map_option (map (filter is_chunk))
           (messageCallbacks (handleAgentEvents cfg p r (map TextEvent (cs @ [c])) s) r) =
        map_option (map (\<lambda>cb. cb @ [Some (Chunk c)]))
          (map_option (map (filter is_chunk))
             (messageCallbacks (handleAgentEvents cfg p r (map TextEvent cs) s) r))"
    by (simp only: handleAgentEvents_text_snoc [OF assms] handleTextEvent_chunks [OF pend])
      (simp add: option.map_comp comp_def)
  also have "\<dots> = map_option (map (\<lambda>cb. filter is_chunk cb @ map (\<lambda>c. Some (Chunk c)) (cs @ [c])))
           (messageCallbacks s r)"
    by (simp only: snoc.IH) (simp add: option.map_comp comp_def)
  finally show ?case .
qed

text \<open>The messages of a reply that started empty, after a batch of text events.\<close>

lemma text_batch_messages:
  assumes "pendingReplies s r = Some reply" and "messages reply = []"
  shows "\<exists>reply'. pendingReplies (handleAgentEvents cfg p r (map TextEvent cs) s) r = Some reply' \<and>
     pr_conversationId reply' = pr_conversationId reply \<and>
     messages reply' =
       (if cs = [] then []
        else [\<lparr>msg_id = None, accumulated_content = Some (concat cs),
               msg_content = ContentBlocks [TextBlock (Some (concat cs))],
               msg_role = Some ''assistant''\<rparr>])"
proof (induction cs rule: rev_induct)
  case Nil
  show ?case using assms by (simp add: handleAgentEvents_def)
next
  case (snoc c cs)
  let ?s1 = "handleAgentEvents cfg p r (map TextEvent cs) s"
  from snoc.IH obtain rep1 where
    pend: "pendingReplies ?s1 r = Some rep1"
    and conv: "pr_conversationId rep1 = pr_conversationId reply"
    and msgs: "messages rep1 =
       (if cs = [] then []
        else [\<lparr>msg_id = None, accumulated_content = Some (concat cs),
               msg_content = ContentBlocks [TextBlock (Some (concat cs))],
               msg_role = Some ''assistant''\<rparr>])"
    by blast
  have acc: "accumulatedText r ?s1 = concat cs"
    using text_batch_accumulated [OF assms(1), of cfg p cs] assms
    by (simp add: accumulatedText_def)
  from handleTextEvent_messages [OF pend, of cfg p c]
  obtain rep2 where
    pend2: "pendingReplies (handleAgentEvent cfg p r (TextEvent c) ?s1) r = Some rep2"
    and conv2: "pr_conversationId rep2 = pr_conversationId rep1"
    and nil2: "messages rep1 = [] \<longrightarrow> messages rep2 =
        [\<lparr>msg_id = None, accumulated_content = Some c,
          msg_content = ContentBlocks [TextBlock (Some c)], msg_role = Some ''assistant''\<rparr>]"
    and cons2: "\<forall>m rest. messages rep1 = m # rest \<longrightarrow>
        messages rep2 =
          m\<lparr>accumulated_content := Some (accumulatedText r ?s1 @ c),
            msg_content := ContentBlocks [TextBlock (Some (accumulatedText r ?s1 @ c))]\<rparr> # rest"
    by blast
  have "messages rep2 =
        [\<lparr>msg_id = None, accumulated_content = Some (concat (cs @ [c])),
          msg_content = ContentBlocks [TextBlock (Some (concat (cs @ [c])))],
          msg_role = Some ''assistant''\<rparr>]"
  proof (cases "cs = []")
    case True
    with msgs nil2 show ?thesis by simp
  next
    case False
    with msgs cons2 acc show ?thesis by simp
  qed
  with pend2 conv2 conv show ?case
    by (simp only: handleAgentEvents_text_snoc [OF assms(1)]) simp
qed

lemma handleAgentFinished_db_messages:
  assumes "pendingReplies s r = Some reply"
  shows "db_messages (handleAgentFinished r now s) =
         saveMessages (pr_conversationId reply) (messages reply) (db_messages s)"
  using assms by (simp add: handleAgentFinished_def Let_def)

lemma saveMessages_duplicate_id:
  assumes "msg_id m = Some i" and "i \<noteq> []" and "Some i \<in> set (map row_id rows)"
  shows "saveMessages conv (m # ms) rows = saveMessages conv ms rows"
  using assms by (auto simp: Let_def message_create_def)

lemma saveMessages_single:
  "saveMessages conv
     [\<lparr>msg_id = None, accumulated_content = Some txt, msg_content = k, msg_role = ro\<rparr>] rows =
   (if txt = [] then rows
    else rows @ [\<lparr>row_id = None, row_conversationId = conv, row_role = ''assistant'',
                  row_content = txt\<rparr>])"
  by (simp add: Let_def message_create_def)




section \<open>Events after a terminal signal\<close>

lemma handleAgentFinished_pending:
  assumes "pendingReplies s r = Some reply"
  shows "pendingReplies (handleAgentFinished r now s) r = Some (reply\<lparr>finished := True\<rparr>)"
  using assms by (simp add: handleAgentFinished_def Let_def)

lemma terminateAgent_pending:
  assumes "pendingReplies s r = Some reply"
  shows "pendingReplies (snd (terminateAgent r now s)) r =
         Some (reply\<lparr>finished := True, cancelled := True\<rparr>)"
  using assms by (simp add: terminateAgent_def Let_def)

lemma handleAgentFinished_accumulated [simp]:
  "accumulatedText r (handleAgentFinished r' now s) = accumulatedText r s"
  by (simp add: accumulatedText_def handleAgentFinished_def Let_def split: option.split)

lemma terminateAgent_accumulated [simp]:
  "accumulatedText r (snd (terminateAgent r' now s)) = accumulatedText r s"
  by (simp add: accumulatedText_def terminateAgent_def Let_def split: option.split)

text \<open>
  C9 (as amended). After the finished handler or the terminate handler has run, the
  reply is still pending, now with \<open>finished = true\<close>. No handler reads that flag: a
  later batch of text events is appended to the accumulated text and pushed to the
  callbacks as before. What no event batch changes is the table of persisted messages.
\<close>

theorem text_after_terminal_still_appended:
  assumes "pendingReplies s r = Some reply"
    and "sf = handleAgentFinished r now s \<or> sf = snd (terminateAgent r now' s)"
  shows
    "(\<exists>reply'. pendingReplies sf r = Some reply' \<and> finished reply') \<and>
     accumulatedText r (handleAgentEvents cfg parse r (map TextEvent cs) sf) =
       accumulatedText r s @ concat cs \<and>
     map_option (map (filter is_chunk))
       (messageCallbacks (handleAgentEvents cfg parse r (map TextEvent cs) sf) r) =
       map_option (map (\<lambda>cb. filter is_chunk cb @ map (\<lambda>c. Some (Chunk c)) cs))
         (messageCallbacks sf r) \<and>
     db_messages (handleAgentEvents cfg parse r evs sf) = db_messages sf"
proof -
  from assms(2) have pend: "\<exists>reply'. pendingReplies sf r = Some reply' \<and> finished reply'"
    using handleAgentFinished_pending [OF assms(1)] terminateAgent_pending [OF assms(1)]
    by auto
  then obtain reply' where p: "pendingReplies sf r = Some reply'" by blast
  from assms(2) have a0: "accumulatedText r sf = accumulatedText r s" by auto
  have acc: "accumulatedText r (handleAgentEvents cfg parse r (map TextEvent cs) sf) =
       accumulatedText r s @ concat cs"
    using text_batch_accumulated [OF p, of cfg parse cs] a0 by simp
  note chunks = text_batch_chunks [OF p, of cfg parse cs]
  from pend acc chunks show ?thesis by simp
qed

theorem text_after_terminal_still_appended_witness:
  "accumulatedText ''r1''
     (handleAgentEvents cfg0 parse0 ''r1'' (map TextEvent [js ''late''])
        (snd (terminateAgent ''r1'' 7 started0))) = js ''late''"
  using text_after_terminal_still_appended [OF started0_pending,
      where sf = "snd (terminateAgent ''r1'' 7 started0)" and now' = 7 and now = 7
        and cfg = cfg0 and parse = parse0 and cs = "[js ''late'']" and evs = "[]"]
  by (simp add: accumulatedText_def started0_pending)

text \<open>
  The claim as stated fails: the accumulated text is \<open>a\<close> when the finished handler has
  run, and \<open>ab\<close> after the next batch.
\<close>

theorem text_after_finished_counterexample:
  "accumulatedText ''r1''
     (handleAgentFinished ''r1'' 7
        (handleAgentEvents cfg0 parse0 ''r1'' [TextEvent (js ''a'')] started0)) = js ''a'' \<and>
   accumulatedText ''r1''
     (handleAgentEvents cfg0 parse0 ''r1'' [TextEvent (js ''b'')]
        (handleAgentFinished ''r1'' 7
           (handleAgentEvents cfg0 parse0 ''r1'' [TextEvent (js ''a'')] started0))) = js ''ab''"
proof -
  let ?s1 = "handleAgentEvents cfg0 parse0 ''r1'' [TextEvent (js ''a'')] started0"
  have a1: "accumulatedText ''r1'' ?s1 = js ''a''"
    using text_batch_accumulated [OF started0_pending, of cfg0 parse0 "[js ''a'']"]
    by (simp add: accumulatedText_def started0_pending)
  from handleAgentEvents_pending [OF started0_pending, of cfg0 parse0 "[TextEvent (js ''a'')]"]
  obtain rep1 where p1: "pendingReplies ?s1 ''r1'' = Some rep1" ..
  from handleAgentFinished_pending [OF p1]
  have p2: "pendingReplies (handleAgentFinished ''r1'' 7 ?s1) ''r1'' = Some (rep1\<lparr>finished := True\<rparr>)" .
  have a2: "accumulatedText ''r1''
     (handleAgentEvents cfg0 parse0 ''r1'' [TextEvent (js ''b'')] (handleAgentFinished ''r1'' 7 ?s1)) = js ''ab''"
    using text_batch_accumulated [OF p2, of cfg0 parse0 "[js ''b'']"] a1 by (simp add: js_def)
  from a1 a2 show ?thesis by simp
qed

section \<open>Terminating twice\<close>

lemma agentSession_finish_sessions:
  "db_agentSessions (agentSession_finish r st now s) =
     (case db_agentSessions s r of
        None \<Rightarrow> db_agentSessions s
      | Some row \<Rightarrow>
          (db_agentSessions s)(r \<mapsto> row\<lparr>as_status := st, as_finishedAt := Some now\<rparr>))"
  by (simp add: agentSession_finish_def split: option.split)

lemma terminateAgent_unfold:
  assumes "pendingReplies s r = Some reply"
  shows "terminateAgent r now s =
     (True,
      agentSession_finish r ''CANCELLED'' now
        (pushToSSEQueue r None
           (pushToSSEQueue r (Some (Cancelled cancelMessage))
              (s\<lparr>db_messages :=
                   saveMessages (pr_conversationId reply) (messages reply) (db_messages s),
                 processes := (processes s)(r := None),
                 pendingReplies := (pendingReplies s)(r \<mapsto>
                   reply\<lparr>finished := True, cancelled := True\<rparr>)\<rparr>))))"
  using assms by (simp add: terminateAgent_def Let_def)

lemma terminateAgent_missing:
  "pendingReplies s r = None \<Longrightarrow> terminateAgent r now s = (False, s)"
  by (simp add: terminateAgent_def)

lemma terminateAgent_sessions:
  assumes "pendingReplies s r = Some reply"
  shows "db_agentSessions (snd (terminateAgent r now s)) =
     (case db_agentSessions s r of
        None \<Rightarrow> db_agentSessions s
      | Some row \<Rightarrow>
          (db_agentSessions s)(r \<mapsto>
             row\<lparr>as_status := ''CANCELLED'', as_finishedAt := Some now\<rparr>))"
  by (simp add: terminateAgent_unfold [OF assms] agentSession_finish_sessions
      split: option.split)

text \<open>
  C6 (as amended). \<open>terminateAgent\<close> never removes the pending reply, so a second call
  for the same reply (at time \<open>t2\<close>, the first at \<open>t1\<close>) finds it again and runs in full:
  it returns true again, pushes the cancelled event and the end signal again to whatever
  callbacks are registered, and runs the flush of the accumulated messages again. What
  the second call leaves as the first call left it: the pending reply (flags and
  messages), the process map and the conversation index. The session row of the reply
  is written again: the first call has set its status to CANCELLED and its
  \<open>finishedAt\<close> to \<open>t1\<close>; the second call keeps the status and the other columns and
  overwrites \<open>finishedAt\<close> with \<open>t2\<close>. The rows of other replies are not touched.
\<close>

theorem terminate_again_repeats:
  assumes "pendingReplies s r = Some reply"
  shows
    "(let s1 = snd (terminateAgent r t1 s); s2 = snd (terminateAgent r t2 s1) in
        fst (terminateAgent r t1 s) \<and> fst (terminateAgent r t2 s1) \<and>
        pendingReplies s2 = pendingReplies s1 \<and>
        processes s2 = processes s1 \<and>
        conversationAgents s2 = conversationAgents s1 \<and>
        (\<forall>row. db_agentSessions s r = Some row \<longrightarrow>
           db_agentSessions s1 r =
             Some (row\<lparr>as_status := ''CANCELLED'', as_finishedAt := Some t1\<rparr>) \<and>
           db_agentSessions s2 r =
             Some (row\<lparr>as_status := ''CANCELLED'', as_finishedAt := Some t2\<rparr>)) \<and>
        (db_agentSessions s r = None \<longrightarrow> db_agentSessions s2 = db_agentSessions s) \<and>
        (\<forall>r'. r' \<noteq> r \<longrightarrow> db_agentSessions s2 r' = db_agentSessions s r') \<and>
        messageCallbacks s2 =
          messageCallbacks
            (pushToSSEQueue r None (pushToSSEQueue r (Some (Cancelled cancelMessage)) s1)) \<and>
        db_messages s2 =
          saveMessages (pr_conversationId reply) (messages reply) (db_messages s1))"
proof -
  let ?reply1 = "reply\<lparr>finished := True, cancelled := True\<rparr>"
  let ?s1 = "snd (terminateAgent r t1 s)"
  let ?s2 = "snd (terminateAgent r t2 ?s1)"
  have p1: "pendingReplies ?s1 r = Some ?reply1"
    using assms by (simp add: terminateAgent_unfold)
  have b1: "fst (terminateAgent r t1 s)"
    using assms by (simp add: terminateAgent_unfold)
  have proc1: "processes ?s1 r = None"
    using assms by (simp add: terminateAgent_unfold)
  note u2 = terminateAgent_unfold [OF p1]
  have b2: "fst (terminateAgent r t2 ?s1)" by (simp add: u2)
  have pend: "pendingReplies ?s2 = pendingReplies ?s1"
    using p1 by (simp add: u2 fun_eq_iff)
  have proc: "processes ?s2 = processes ?s1"
    using proc1 by (simp add: u2 fun_eq_iff)
  have conv: "conversationAgents ?s2 = conversationAgents ?s1"
    by simp
  note se1 = terminateAgent_sessions [OF assms, of t1]
  note se2 = terminateAgent_sessions [OF p1, of t2]
  have sess: "\<forall>row. db_agentSessions s r = Some row \<longrightarrow>
           db_agentSessions ?s1 r =
             Some (row\<lparr>as_status := ''CANCELLED'', as_finishedAt := Some t1\<rparr>) \<and>
           db_agentSessions ?s2 r =
             Some (row\<lparr>as_status := ''CANCELLED'', as_finishedAt := Some t2\<rparr>)"
  proof (intro allI impI)
    fix row
    assume row: "db_agentSessions s r = Some row"
    have 1: "db_agentSessions ?s1 r =
             Some (row\<lparr>as_status := ''CANCELLED'', as_finishedAt := Some t1\<rparr>)"
      by (simp add: se1 row)
    have 2: "db_agentSessions ?s2 r =
             Some (row\<lparr>as_status := ''CANCELLED'', as_finishedAt := Some t2\<rparr>)"
      by (simp add: se2 1)
    from 1 2 show "db_agentSessions ?s1 r =
             Some (row\<lparr>as_status := ''CANCELLED'', as_finishedAt := Some t1\<rparr>) \<and>
           db_agentSessions ?s2 r =
             Some (row\<lparr>as_status := ''CANCELLED'', as_finishedAt := Some t2\<rparr>)"
      by simp
  qed
  have none: "db_agentSessions s r = None \<longrightarrow> db_agentSessions ?s2 = db_agentSessions s"
  proof
    assume n: "db_agentSessions s r = None"
    have 1: "db_agentSessions ?s1 = db_agentSessions s"
      by (simp add: se1 n)
    show "db_agentSessions ?s2 = db_agentSessions s"
      by (simp add: se2 1 n)
  qed
  have others: "\<forall>r'. r' \<noteq> r \<longrightarrow> db_agentSessions ?s2 r' = db_agentSessions s r'"
  proof (intro allI impI)
    fix r'
    assume ne: "r' \<noteq> r"
    have 1: "db_agentSessions ?s1 r' = db_agentSessions s r'"
      using ne by (simp add: se1 split: option.split)
    have 2: "db_agentSessions ?s2 r' = db_agentSessions ?s1 r'"
      using ne by (simp add: se2 split: option.split)
    from 1 2 show "db_agentSessions ?s2 r' = db_agentSessions s r'" by simp
  qed
  have cbs: "messageCallbacks ?s2 =
          messageCallbacks
            (pushToSSEQueue r None (pushToSSEQueue r (Some (Cancelled cancelMessage)) ?s1))"
    by (simp add: u2 pushToSSEQueue_callbacks)
  have msgs: "db_messages ?s2 =
          saveMessages (pr_conversationId reply) (messages reply) (db_messages ?s1)"
    by (simp add: u2)
  show ?thesis
    unfolding Let_def
    by (intro conjI) (fact b1 b2 pend proc conv sess none others cbs msgs)+
qed

lemma partial0_pending:
  "pendingReplies partial0 ''r1'' =
     Some \<lparr>pr_conversationId = ''c1'', pr_replyId = ''r1'', pr_userId = ''u1'',
           messages = [\<lparr>msg_id = None, accumulated_content = Some (js ''partial''),
                        msg_content = ContentBlocks [TextBlock (Some (js ''partial''))],
                        msg_role = Some ''assistant''\<rparr>],
           finished = False, cancelled = False\<rparr>"
  by (simp add: partial0_def handleAgentEvents_def started0_pending Let_def)

lemma partial0_callbacks:
  "messageCallbacks partial0 ''r1'' = Some [[Some (Chunk (js ''partial''))]]"
  by (simp add: partial0_def handleAgentEvents_def started0_pending Let_def
      extractAndPushTestcases_def pushToSSEQueue_callbacks started0_callbacks)

lemma partial0_db_messages: "db_messages partial0 = []"
  by (simp add: partial0_def started0_db_messages)

lemma handleAgentEvent_sessions:
  "db_agentSessions (handleAgentEvent cfg p r ev s) = db_agentSessions s"
  by (cases ev) (simp_all add: Let_def split: option.split)

lemma handleAgentEvents_sessions:
  "db_agentSessions (handleAgentEvents cfg p r evs s) = db_agentSessions s"
proof -
  have "db_agentSessions (foldl (\<lambda>st ev. handleAgentEvent cfg p r ev st) s evs) =
        db_agentSessions s"
    by (induction evs arbitrary: s) (simp_all add: handleAgentEvent_sessions)
  then show ?thesis by (simp add: handleAgentEvents_def split: option.split)
qed

lemma partial0_session:
  "db_agentSessions partial0 ''r1'' =
     Some \<lparr>as_conversationId = ''c1'', as_userId = ''u1'', as_status = ''RUNNING'',
           as_pid = Some 4242, as_finishedAt = None\<rparr>"
  by (simp add: partial0_def handleAgentEvents_sessions started0_def spawnAgent_def
      spawnAgent_running_def
      spawnAgent_spawned_def spawnAgent_init_def emptyManager_def params0_def child0_def
      Let_def)

theorem terminate_again_repeats_witness:
  "db_messages (snd (terminateAgent ''r1'' 9 (snd (terminateAgent ''r1'' 5 partial0)))) =
     [\<lparr>row_id = None, row_conversationId = ''c1'', row_role = ''assistant'',
       row_content = js ''partial''\<rparr>,
      \<lparr>row_id = None, row_conversationId = ''c1'', row_role = ''assistant'',
       row_content = js ''partial''\<rparr>]"
  using terminate_again_repeats [OF partial0_pending, of 5 9]
  by (simp add: Let_def terminateAgent_unfold [OF partial0_pending] partial0_db_messages
      message_create_def js_def)

text \<open>
  The claim as stated fails on scenario S3 (one text event \<open>partial\<close>, then two
  interrupts, at times 5 and 9). With the stream already closed after the first
  interrupt (its callbacks removed), the second call still returns true, changes the
  state and persists a second assistant message. With the callback still registered,
  the second call also injects a second cancelled event and end signal, and it moves
  \<open>finishedAt\<close> of the session row from 5 to 9.
\<close>

theorem terminate_not_idempotent:
  "fst (terminateAgent ''r1'' 9
          (removeSSECallbacks ''r1'' (snd (terminateAgent ''r1'' 5 partial0)))) \<and>
   snd (terminateAgent ''r1'' 9
          (removeSSECallbacks ''r1'' (snd (terminateAgent ''r1'' 5 partial0)))) \<noteq>
     removeSSECallbacks ''r1'' (snd (terminateAgent ''r1'' 5 partial0)) \<and>
   length (db_messages (snd (terminateAgent ''r1'' 5 partial0))) = 1 \<and>
   length (db_messages
     (snd (terminateAgent ''r1'' 9
             (removeSSECallbacks ''r1'' (snd (terminateAgent ''r1'' 5 partial0)))))) = 2 \<and>
   messageCallbacks (snd (terminateAgent ''r1'' 9 (snd (terminateAgent ''r1'' 5 partial0)))) ''r1'' =
     Some [[Some (Chunk (js ''partial'')), Some (Cancelled cancelMessage), None,
            Some (Cancelled cancelMessage), None]] \<and>
   db_agentSessions (snd (terminateAgent ''r1'' 5 partial0)) ''r1'' =
     Some \<lparr>as_conversationId = ''c1'', as_userId = ''u1'', as_status = ''CANCELLED'',
           as_pid = Some 4242, as_finishedAt = Some 5\<rparr> \<and>
   db_agentSessions (snd (terminateAgent ''r1'' 9 (snd (terminateAgent ''r1'' 5 partial0)))) ''r1'' =
     Some \<lparr>as_conversationId = ''c1'', as_userId = ''u1'', as_status = ''CANCELLED'',
           as_pid = Some 4242, as_finishedAt = Some 9\<rparr>"
proof -
  let ?s1 = "snd (terminateAgent ''r1'' 5 partial0)"
  let ?s1' = "removeSSECallbacks ''r1'' ?s1"
  have p1: "pendingReplies ?s1 ''r1'' =
     Some \<lparr>pr_conversationId = ''c1'', pr_replyId = ''r1'', pr_userId = ''u1'',
           messages = [\<lparr>msg_id = None, accumulated_content = Some (js ''partial''),
                        msg_content = ContentBlocks [TextBlock (Some (js ''partial''))],
                        msg_role = Some ''assistant''\<rparr>],
           finished = True, cancelled = True\<rparr>"
    by (simp add: terminateAgent_unfold [OF partial0_pending])
  then have p1': "pendingReplies ?s1' ''r1'' =
     Some \<lparr>pr_conversationId = ''c1'', pr_replyId = ''r1'', pr_userId = ''u1'',
           messages = [\<lparr>msg_id = None, accumulated_content = Some (js ''partial''),
                        msg_content = ContentBlocks [TextBlock (Some (js ''partial''))],
                        msg_role = Some ''assistant''\<rparr>],
           finished = True, cancelled = True\<rparr>"
    by simp
  have d1: "db_messages ?s1 =
     [\<lparr>row_id = None, row_conversationId = ''c1'', row_role = ''assistant'',
       row_content = js ''partial''\<rparr>]"
    by (simp add: terminateAgent_unfold [OF partial0_pending] partial0_db_messages
        message_create_def Let_def)
  then have d1': "db_messages ?s1' =
     [\<lparr>row_id = None, row_conversationId = ''c1'', row_role = ''assistant'',
       row_content = js ''partial''\<rparr>]"
    by simp
  have c1: "messageCallbacks ?s1 ''r1'' =
     Some [[Some (Chunk (js ''partial'')), Some (Cancelled cancelMessage), None]]"
    by (simp add: terminateAgent_unfold [OF partial0_pending] pushToSSEQueue_callbacks
        partial0_callbacks)
  have b2: "fst (terminateAgent ''r1'' 9 ?s1')"
    by (simp add: terminateAgent_unfold [OF p1'])
  have d2: "length (db_messages (snd (terminateAgent ''r1'' 9 ?s1'))) = 2"
    by (simp add: terminateAgent_unfold [OF p1'] d1 message_create_def Let_def)
  have c2: "messageCallbacks (snd (terminateAgent ''r1'' 9 ?s1)) ''r1'' =
     Some [[Some (Chunk (js ''partial'')), Some (Cancelled cancelMessage), None,
            Some (Cancelled cancelMessage), None]]"
    by (simp add: terminateAgent_unfold [OF p1] pushToSSEQueue_callbacks c1)
  have ne: "snd (terminateAgent ''r1'' 9 ?s1') \<noteq> ?s1'"
  proof
    assume "snd (terminateAgent ''r1'' 9 ?s1') = ?s1'"
    then have "length (db_messages (snd (terminateAgent ''r1'' 9 ?s1'))) =
        length (db_messages ?s1')"
      by simp
    with d1' d2 show False by simp
  qed
  from d1 have l1: "length (db_messages ?s1) = 1" by simp
  have e1: "db_agentSessions ?s1 ''r1'' =
     Some \<lparr>as_conversationId = ''c1'', as_userId = ''u1'', as_status = ''CANCELLED'',
           as_pid = Some 4242, as_finishedAt = Some 5\<rparr>"
    by (simp add: terminateAgent_sessions [OF partial0_pending] partial0_session)
  have e2: "db_agentSessions (snd (terminateAgent ''r1'' 9 ?s1)) ''r1'' =
     Some \<lparr>as_conversationId = ''c1'', as_userId = ''u1'', as_status = ''CANCELLED'',
           as_pid = Some 4242, as_finishedAt = Some 9\<rparr>"
    by (simp add: terminateAgent_sessions [OF p1] e1)
  show ?thesis by (intro conjI) (fact b2 ne l1 d2 c2 e1 e2)+
qed

section \<open>The interrupt route\<close>

lemma authenticate_codes:
  assumes "authenticate env a = Inl code"
  shows "code = 401 \<or> code = 403"
  using assms
  by (simp add: authenticate_def split: option.splits if_splits SessionLookup.splits)

lemma authenticate_forbidden:
  assumes "authenticate env a = Inl 403"
  shows "\<exists>token payload u st. extractToken a = Some token \<and>
           jwt_verify env token = Some payload \<and> jwt_sub payload = Some u \<and>
           db_users env u = Some st \<and> st \<noteq> ''ACTIVE''"
  using assms
  by (simp add: authenticate_def split: option.splits if_splits SessionLookup.splits)

lemma authenticate_accepts:
  assumes "authenticate env a = Inr u"
  shows "db_users env u = Some ''ACTIVE''"
  using assms
  by (simp add: authenticate_def split: option.splits if_splits SessionLookup.splits)

lemma interruptRoute_rejected:
  assumes "authenticate env a = Inl code"
  shows "interruptRoute env a body now s = ((code, False), s)"
  using assms by (simp add: interruptRoute_def)

lemma interruptRoute_accepted:
  assumes "authenticate env a = Inr u" and "reply_id \<noteq> []"
  shows "interruptRoute env a (Some reply_id) now s =
         ((200, fst (terminateAgent reply_id now s)), snd (terminateAgent reply_id now s))"
  using assms by (simp add: interruptRoute_def interruptAgent_def split: prod.split)

lemma extractToken_t1: "extractToken (Some ''Bearer t1'') = Some ''t1''"
  by (simp add: extractToken_def toLowerCase_def)

lemma extractToken_t2: "extractToken (Some ''bearer t2'') = Some ''t2''"
  by (simp add: extractToken_def toLowerCase_def)

lemma extractToken_t3: "extractToken (Some ''Bearer t3'') = Some ''t3''"
  by (simp add: extractToken_def toLowerCase_def)

lemma authenticate_u1: "authenticate env0 (Some ''Bearer t1'') = Inr ''u1''"
  by (simp add: authenticate_def extractToken_t1 env0_def)

lemma authenticate_u2: "authenticate env0 (Some ''bearer t2'') = Inr ''u2''"
  by (simp add: authenticate_def extractToken_t2 env0_def)

lemma authenticate_u3: "authenticate env0 (Some ''Bearer t3'') = Inl 403"
  by (simp add: authenticate_def extractToken_t3 env0_def)

lemma authenticate_missing: "authenticate env0 None = Inl 401"
  by (simp add: authenticate_def extractToken_def)

text \<open>
  C5 (as amended). The route authenticates the caller and nothing more. A request
  whose authentication fails is answered with the status of the error, 401 or 403, and
  changes nothing; 403 is answered only when the account of the caller named by the
  token is not ACTIVE, whatever the reply, and a caller passes the authentication only
  with an ACTIVE account. For callers that pass the authentication the
  route never compares the caller with the owner of the reply: answer and effect are
  the same for any two of them. For a (non-empty) \<open>reply_id\<close> with a pending reply,
  whoever owns it, the answer is HTTP 200 with \<open>success = true\<close> and the agent is
  terminated (reply marked finished and cancelled, child removed from the process map);
  without a pending reply the answer is HTTP 200 with \<open>success = false\<close> and nothing
  changes.
\<close>

theorem interrupt_ignores_caller:
  assumes "authenticate env authorization = Inr caller"
    and "authenticate env authorization' = Inr caller'"
    and "reply_id \<noteq> []"
  shows
    "interruptRoute env authorization (Some reply_id) now s =
       interruptRoute env authorization' (Some reply_id) now s \<and>
     (\<forall>reply. pendingReplies s reply_id = Some reply \<longrightarrow>
        fst (interruptRoute env authorization (Some reply_id) now s) = (200, True) \<and>
        pendingReplies (snd (interruptRoute env authorization (Some reply_id) now s)) reply_id =
          Some (reply\<lparr>finished := True, cancelled := True\<rparr>) \<and>
        processes (snd (interruptRoute env authorization (Some reply_id) now s)) reply_id =
          None) \<and>
     (pendingReplies s reply_id = None \<longrightarrow>
        interruptRoute env authorization (Some reply_id) now s = ((200, False), s)) \<and>
     (\<forall>a code body. authenticate env a = Inl code \<longrightarrow>
        interruptRoute env a body now s = ((code, False), s) \<and> (code = 401 \<or> code = 403)) \<and>
     (\<forall>a. authenticate env a = Inl 403 \<longrightarrow>
        (\<exists>token payload u st. extractToken a = Some token \<and>
           jwt_verify env token = Some payload \<and> jwt_sub payload = Some u \<and>
           db_users env u = Some st \<and> st \<noteq> ''ACTIVE'')) \<and>
     (\<forall>a u. authenticate env a = Inr u \<longrightarrow> db_users env u = Some ''ACTIVE'')"
proof -
  note r1 = interruptRoute_accepted [OF assms(1) assms(3), of now s]
  note r2 = interruptRoute_accepted [OF assms(2) assms(3), of now s]
  have same: "interruptRoute env authorization (Some reply_id) now s =
       interruptRoute env authorization' (Some reply_id) now s"
    by (simp only: r1 r2)
  have found: "\<forall>reply. pendingReplies s reply_id = Some reply \<longrightarrow>
        fst (interruptRoute env authorization (Some reply_id) now s) = (200, True) \<and>
        pendingReplies (snd (interruptRoute env authorization (Some reply_id) now s)) reply_id =
          Some (reply\<lparr>finished := True, cancelled := True\<rparr>) \<and>
        processes (snd (interruptRoute env authorization (Some reply_id) now s)) reply_id =
          None"
    by (simp add: r1 terminateAgent_unfold)
  have missing: "pendingReplies s reply_id = None \<longrightarrow>
        interruptRoute env authorization (Some reply_id) now s = ((200, False), s)"
    by (simp add: r1 terminateAgent_missing)
  have rejected: "\<forall>a code body. authenticate env a = Inl code \<longrightarrow>
        interruptRoute env a body now s = ((code, False), s) \<and> (code = 401 \<or> code = 403)"
    using interruptRoute_rejected authenticate_codes by blast
  have forbidden: "\<forall>a. authenticate env a = Inl 403 \<longrightarrow>
        (\<exists>token payload u st. extractToken a = Some token \<and>
           jwt_verify env token = Some payload \<and> jwt_sub payload = Some u \<and>
           db_users env u = Some st \<and> st \<noteq> ''ACTIVE'')"
    using authenticate_forbidden by blast
  have accepted: "\<forall>a u. authenticate env a = Inr u \<longrightarrow> db_users env u = Some ''ACTIVE''"
    using authenticate_accepts by blast
  show ?thesis
    by (intro conjI) (fact same found missing rejected forbidden accepted)+
qed

theorem interrupt_ignores_caller_witness:
  "interruptRoute env0 (Some ''Bearer t1'') (Some ''r1'') 5 partial0 =
     interruptRoute env0 (Some ''bearer t2'') (Some ''r1'') 5 partial0 \<and>
   fst (interruptRoute env0 (Some ''Bearer t1'') (Some ''r1'') 5 partial0) = (200, True) \<and>
   interruptRoute env0 (Some ''Bearer t3'') (Some ''r1'') 5 partial0 = ((403, False), partial0)"
proof -
  have h: "''r1'' \<noteq> []" by simp
  note t = interrupt_ignores_caller [OF authenticate_u1 authenticate_u2 h, of 5 partial0]
  from t have same: "interruptRoute env0 (Some ''Bearer t1'') (Some ''r1'') 5 partial0 =
     interruptRoute env0 (Some ''bearer t2'') (Some ''r1'') 5 partial0"
    by blast
  from t partial0_pending
  have found: "fst (interruptRoute env0 (Some ''Bearer t1'') (Some ''r1'') 5 partial0) =
     (200, True)"
    by blast
  from t authenticate_u3
  have rejected: "interruptRoute env0 (Some ''Bearer t3'') (Some ''r1'') 5 partial0 =
     ((403, False), partial0)"
    by blast
  from same found rejected show ?thesis by simp
qed

text \<open>
  The claim as stated fails: reply \<open>r1\<close> belongs to user \<open>u1\<close>; the interrupt sent by
  user \<open>u2\<close>, authenticated with an ACTIVE account, is answered 200 with success, and
  the reply is cancelled.
\<close>

theorem interrupt_by_other_user_succeeds:
  "map_option pr_userId (pendingReplies partial0 ''r1'') = Some ''u1'' \<and>
   authenticate env0 (Some ''bearer t2'') = Inr ''u2'' \<and>
   fst (interruptRoute env0 (Some ''bearer t2'') (Some ''r1'') 5 partial0) = (200, True) \<and>
   map_option cancelled
     (pendingReplies (snd (interruptRoute env0 (Some ''bearer t2'') (Some ''r1'') 5 partial0))
        ''r1'') = Some True \<and>
   processes (snd (interruptRoute env0 (Some ''bearer t2'') (Some ''r1'') 5 partial0)) ''r1'' =
     None \<and>
   messageCallbacks (snd (interruptRoute env0 (Some ''bearer t2'') (Some ''r1'') 5 partial0))
     ''r1'' =
     Some [[Some (Chunk (js ''partial'')), Some (Cancelled cancelMessage), None]]"
proof -
  have h: "''r1'' \<noteq> []" by simp
  note r = interruptRoute_accepted [OF authenticate_u2 h, of 5 partial0]
  show ?thesis
    by (simp add: r authenticate_u2 terminateAgent_unfold [OF partial0_pending]
        partial0_pending partial0_callbacks pushToSSEQueue_callbacks)
qed
section \<open>Process exit without a finished signal\<close>

lemma drainQueue_messages:
  "drainQueue conv (map Some ms) = (map MessageFrame ms, False)"
  by (induction ms) simp_all

lemma streamTurn_not_running:
  "streamTurn conv False (map Some ms) = (map MessageFrame ms @ [DoneFrame conv], True)"
  by (simp add: streamTurn_def drainQueue_messages)

lemma onExit_processes: "processes (onExit r c s) r = None"
  by (simp add: onExit_def Let_def split: option.split)

lemma onExit_index:
  "(case conversationAgents (onExit r c s) c of None \<Rightarrow> True
    | Some rs \<Rightarrow> r \<notin> set rs \<and> rs \<noteq> [])"
  by (simp add: onExit_def Let_def split: option.split)

lemma onExit_not_running: "\<not> isRunning r (onExit r c s)"
  by (simp add: isRunning_def onExit_processes)

lemma onExit_processes_map: "processes (onExit r c s) = (processes s)(r := None)"
  by (simp add: onExit_def Let_def split: option.split)

lemma onExit_index_map:
  "conversationAgents (onExit r c s) =
     (case conversationAgents s c of
        None \<Rightarrow> conversationAgents s
      | Some rs \<Rightarrow>
          if removeAll r rs = [] then (conversationAgents s)(c := None)
          else (conversationAgents s)(c \<mapsto> removeAll r rs))"
  by (simp add: onExit_def Let_def split: option.split)



section \<open>Spawn and subscription\<close>

lemma pushToSSEQueue_None:
  "messageCallbacks s r = None \<Longrightarrow> messageCallbacks (pushToSSEQueue r' m s) r = None"
  by (auto simp: pushToSSEQueue_callbacks)

lemma extractAndPushTestcases_None:
  assumes "messageCallbacks s r = None"
  shows "messageCallbacks (extractAndPushTestcases p r' t s) r = None"
proof -
  from extractAndPushTestcases_cases [of p r' t s] show ?thesis
  proof
    assume "extractAndPushTestcases p r' t s = s"
    with assms show ?thesis by simp
  next
    assume "\<exists>st n tcs. extractAndPushTestcases p r' t s =
      pushToSSEQueue r' (Some (Testcases st n tcs))
        (s\<lparr>extractedTestcaseReplies := insert r' (extractedTestcaseReplies s)\<rparr>)"
    then obtain st n tcs where "extractAndPushTestcases p r' t s =
      pushToSSEQueue r' (Some (Testcases st n tcs))
        (s\<lparr>extractedTestcaseReplies := insert r' (extractedTestcaseReplies s)\<rparr>)" by blast
    with assms show ?thesis by (simp add: pushToSSEQueue_None)
  qed
qed

lemma handleAgentEvent_None:
  assumes "messageCallbacks s r = None"
  shows "messageCallbacks (handleAgentEvent cfg p r' ev s) r = None"
proof (cases ev)
  case (TextEvent c)
  show ?thesis
  proof (cases "pendingReplies s r'")
    case None
    with TextEvent assms show ?thesis by simp
  next
    case (Some reply)
    show ?thesis
      unfolding TextEvent
      by (subst handleTextEvent_unfold [OF Some])
        (rule extractAndPushTestcases_None, simp add: pushToSSEQueue_None assms)
  qed
qed (simp_all add: assms pushToSSEQueue_None)

lemma handleAgentEvents_None:
  assumes "messageCallbacks s r = None"
  shows "messageCallbacks (handleAgentEvents cfg p r' evs s) r = None"
proof -
  have "messageCallbacks s r = None \<Longrightarrow>
    messageCallbacks (foldl (\<lambda>st ev. handleAgentEvent cfg p r' ev st) s evs) r = None" for s
    by (induction evs arbitrary: s) (simp_all add: handleAgentEvent_None)
  with assms show ?thesis by (simp add: handleAgentEvents_def split: option.split)
qed

lemma handleAgentMessage_None:
  assumes "messageCallbacks s r = None"
  shows "messageCallbacks (handleAgentMessage p r' m s) r = None"
proof (cases "pendingReplies s r'")
  case None
  with assms show ?thesis by (simp add: handleAgentMessage_def)
next
  case (Some reply)
  show ?thesis
    unfolding handleAgentMessage_def
    by (simp add: Some Let_def del: pushToSSEQueue_frame)
      (intro conjI impI extractAndPushTestcases_None pushToSSEQueue_None;
        simp add: assms)
qed

lemma terminateAgent_callbacks:
  "messageCallbacks (snd (terminateAgent r now s)) =
     (case pendingReplies s r of
        None \<Rightarrow> messageCallbacks s
      | Some reply \<Rightarrow>
          messageCallbacks
            (pushToSSEQueue r None (pushToSSEQueue r (Some (Cancelled cancelMessage)) s)))"
  by (simp add: terminateAgent_def Let_def pushToSSEQueue_callbacks split: option.split)

lemma terminateAgent_None:
  assumes "messageCallbacks s r = None"
  shows "messageCallbacks (snd (terminateAgent r' now s)) r = None"
  using assms by (simp add: terminateAgent_callbacks pushToSSEQueue_None split: option.split)

lemma terminateConversation_None:
  assumes "messageCallbacks s r = None"
  shows "messageCallbacks (terminateConversation c nowOf s) r = None"
proof -
  have "messageCallbacks s r = None \<Longrightarrow>
    messageCallbacks (foldl (\<lambda>st r. snd (terminateAgent r (nowOf r) st)) s rs) r = None" for s rs
    by (induction rs arbitrary: s) (simp_all add: terminateAgent_None)
  with assms show ?thesis by (simp add: terminateConversation_def split: option.split)
qed

lemma step_None:
  assumes "messageCallbacks s r = None" and "op \<noteq> OpRegisterSSECallback r"
  shows "messageCallbacks (step cfg p op s) r = None"
  using assms
  by (cases op)
    (simp_all add: handleAgentMessage_None handleAgentEvents_None terminateAgent_None
      terminateConversation_None pushToSSEQueue_None registerSSECallback_def
      removeSSECallbacks_def cleanup_def)

lemma run_None:
  assumes "messageCallbacks s r = None" and "OpRegisterSSECallback r \<notin> set ops"
  shows "messageCallbacks (run cfg p ops s) r = None"
  using assms
proof (induction ops arbitrary: s)
  case Nil
  then show ?case by (simp add: run_def)
next
  case (Cons op ops)
  from Cons.prems have "messageCallbacks (step cfg p op s) r = None"
    by (intro step_None) auto
  from Cons.IH [OF this] Cons.prems(2) show ?case by (simp add: run_def)
qed

lemma streamLoop_start_first:
  "\<forall>i m. i < length (sendMessageStreaming_frames conv r turns) \<and>
         sendMessageStreaming_frames conv r turns ! i = MessageFrame m \<longrightarrow> 0 < i"
  by (auto simp: sendMessageStreaming_frames_def nth_Cons split: nat.split)

lemma foldl_pushToSSEQueue_callbacks:
  "messageCallbacks (foldl (\<lambda>st m. pushToSSEQueue r m st) s ms) r =
     map_option (map (\<lambda>cb. cb @ ms)) (messageCallbacks s r)"
proof (induction ms arbitrary: s)
  case Nil
  show ?case by (simp add: option.map_ident)
next
  case (Cons m ms)
  show ?case
    by (simp add: Cons.IH pushToSSEQueue_callbacks option.map_comp comp_def)
qed

lemma foldl_pushToSSEQueue_Some:
  "foldl (\<lambda>st m. pushToSSEQueue r (Some m) st) s ms =
   foldl (\<lambda>st m. pushToSSEQueue r m st) s (map Some ms)"
  by (induction ms arbitrary: s) simp_all

lemma drainQueue_end:
  "drainQueue conv (map Some ms @ [None]) = (map MessageFrame ms @ [DoneFrame conv], True)"
  by (induction ms) simp_all

lemma spawned_accumulated:
  "accumulatedText (sp_replyId params)
     (spawnAgent_spawned child params (spawnAgent_init params s)) = []"
  by (simp add: accumulatedText_def spawnAgent_spawned_def spawnAgent_init_def Let_def
      split: option.split)

lemma spawned_pending:
  "\<exists>rep. pendingReplies (spawnAgent_spawned child params (spawnAgent_init params s))
           (sp_replyId params) = Some rep"
  by (simp add: spawnAgent_spawned_def spawnAgent_init_def Let_def split: option.split)

lemma spawned_callbacks:
  "messageCallbacks (spawnAgent_spawned child params (spawnAgent_init params s)) =
   messageCallbacks s"
  by (simp add: spawnAgent_spawned_def spawnAgent_init_def Let_def split: option.split)

lemma setup_callbacks:
  assumes "messageCallbacks
             (during (spawnAgent_spawned child params (spawnAgent_init params s)))
             (sp_replyId params) = None"
  shows "messageCallbacks (sendMessageStreaming_setup child params during s)
           (sp_replyId params) = Some [[]]"
  using assms
  by (simp add: sendMessageStreaming_setup_def registerSSECallback_def
      spawnAgent_running_def Let_def split: option.split)

lemma setup_accumulated:
  "accumulatedText r (sendMessageStreaming_setup child params during s) =
   accumulatedText r (during (spawnAgent_spawned child params (spawnAgent_init params s)))"
  by (simp add: sendMessageStreaming_setup_def accumulatedText_def registerSSECallback_def
      spawnAgent_running_def Let_def split: option.split)



lemma spawned0_pending:
  "pendingReplies (spawnAgent_spawned child0 params0 (spawnAgent_init params0 emptyManager)) ''r1''
     = Some \<lparr>pr_conversationId = ''c1'', pr_replyId = ''r1'',
       pr_userId = ''u1'', messages = [], finished = False, cancelled = False\<rparr>"
  by (simp add: spawnAgent_spawned_def spawnAgent_init_def emptyManager_def params0_def Let_def)

lemma spawned0_callbacks:
  "messageCallbacks (spawnAgent_spawned child0 params0 (spawnAgent_init params0 emptyManager))
     = Map.empty"
  by (simp add: spawnAgent_spawned_def spawnAgent_init_def emptyManager_def params0_def Let_def)

lemma spawned0_db_messages:
  "db_messages (spawnAgent_spawned child0 params0 (spawnAgent_init params0 emptyManager)) = []"
  by (simp add: spawnAgent_spawned_def spawnAgent_init_def emptyManager_def params0_def Let_def)

lemma spawnAgent_running_frame [simp]:
  "pendingReplies (spawnAgent_running ch ps s) = pendingReplies s"
  "messageCallbacks (spawnAgent_running ch ps s) = messageCallbacks s"
  "db_messages (spawnAgent_running ch ps s) = db_messages s"
  "hiddenToolCallIds (spawnAgent_running ch ps s) = hiddenToolCallIds s"
  "extractedTestcaseReplies (spawnAgent_running ch ps s) = extractedTestcaseReplies s"
  by (simp_all add: spawnAgent_running_def Let_def split: option.split)

lemma params0_replyId: "sp_replyId params0 = ''r1''"
  by (simp add: params0_def)

lemma early0_pending:
  "pendingReplies early0 ''r1'' =
     Some \<lparr>pr_conversationId = ''c1'', pr_replyId = ''r1'', pr_userId = ''u1'',
           messages = [\<lparr>msg_id = None, accumulated_content = Some (js ''Hello''),
                        msg_content = ContentBlocks [TextBlock (Some (js ''Hello''))],
                        msg_role = Some ''assistant''\<rparr>],
           finished = False, cancelled = False\<rparr>"
  by (simp add: early0_def sendMessageStreaming_setup_def handleAgentEvents_def
      spawned0_pending Let_def)

lemma early0_callbacks: "messageCallbacks early0 ''r1'' = Some [[]]"
proof -
  have "messageCallbacks
      (handleAgentEvents cfg0 parse0 ''r1'' [TextEvent (js ''Hello'')]
         (spawnAgent_spawned child0 params0 (spawnAgent_init params0 emptyManager))) ''r1'' = None"
    by (rule handleAgentEvents_None) (simp add: spawned0_callbacks)
  then show ?thesis
    by (simp add: early0_def sendMessageStreaming_setup_def registerSSECallback_def
        params0_replyId)
qed

lemma early0_db_messages: "db_messages early0 = []"
  by (simp add: early0_def sendMessageStreaming_setup_def spawned0_db_messages)


section \<open>Testcase extraction\<close>

lemma str_includes_append: "str_includes ys kw \<Longrightarrow> str_includes (xs @ ys) kw"
proof (induction xs)
  case Nil
  then show ?case by simp
next
  case (Cons x xs)
  then show ?case by simp
qed

lemma doc0_value: "doc0 = 0x7B # quoted ''testcases'' @ js '':[1]}''"
  by (simp add: doc0_def)

lemma length_text100: "length text100 = 100"
  by (simp add: text100_def doc0_def quoted_def)

lemma str_includes_doc0: "str_includes doc0 (quoted ''testcases'')"
  by (simp add: doc0_def quoted_def)

lemma hint_text100: "list_ex (str_includes text100) hint_keywords"
  by (simp add: hint_keywords_def text100_def str_includes_append str_includes_doc0)

lemma matchTestcases_doc0: "matchTestcases doc0 = Some doc0"
  by (simp add: matchTestcases_def doc0_def quoted_def)

text \<open>
  The match on small texts: it runs from the first opening brace to the last closing
  brace; there is none when the quoted word does not lie between the two.
\<close>

lemma matchTestcases_greedy:
  "matchTestcases (js ''ab{x'' @ quoted ''testcases'' @ js ''y}z}w'') =
     Some (js ''{x'' @ quoted ''testcases'' @ js ''y}z}'')"
  by (simp add: matchTestcases_def quoted_def)

lemma matchTestcases_word_outside:
  "matchTestcases (quoted ''testcases'' @ js ''{x}'') = None"
  by (simp add: matchTestcases_def quoted_def)

lemma matchTestcases_no_closing_brace:
  "matchTestcases (js ''{'' @ quoted ''testcases'' @ js '':[1]'') = None"
  by (simp add: matchTestcases_def quoted_def)

lemma matchTestcases_text100: "matchTestcases text100 = Some doc0"
proof -
  have "dropWhile (\<lambda>c. c \<noteq> 0x7B) text100 = dropWhile (\<lambda>c. c \<noteq> 0x7B) doc0"
    unfolding text100_def by (rule dropWhile_append2) simp
  then show ?thesis
    using matchTestcases_doc0 by (simp add: matchTestcases_def)
qed

lemma text100_nonempty: "text100 \<noteq> []"
  using length_text100 by auto

lemma extract_text100:
  "extractAndPushTestcases parse0 ''r1'' text100 started0 =
     pushToSSEQueue ''r1'' (Some (Testcases (JStr ''unknown'') (JNum 1) [JNum 1]))
       (started0\<lparr>extractedTestcaseReplies := {''r1''}\<rparr>)"
  by (simp add: extractAndPushTestcases_def started0_extracted length_text100 hint_text100
      text100_nonempty
      matchTestcases_text100 parse0_def)


lemma extractAndPushTestcases_emits:
  assumes "r \<notin> extractedTestcaseReplies s" and "100 \<le> length t"
    and "list_ex (str_includes t) hint_keywords" and "matchTestcases t = Some m"
    and "parse m = Some (JObj kv)" and "map_of kv ''testcases'' = Some (JArr tcs)"
    and "tcs \<noteq> []"
  shows "extractAndPushTestcases parse r t s =
     pushToSSEQueue r
       (Some (Testcases (nullish (map_of kv ''status'') (JStr ''unknown''))
                (nullish (map_of kv ''count'') (JNum (int (length tcs)))) tcs))
       (s\<lparr>extractedTestcaseReplies := insert r (extractedTestcaseReplies s)\<rparr>)"
proof -
  from assms(2) have "t \<noteq> []" by auto
  with assms show ?thesis by (simp add: extractAndPushTestcases_def)
qed

lemma extractAndPushTestcases_silent:
  assumes "r \<in> extractedTestcaseReplies s \<or> length t < 100 \<or>
     \<not> list_ex (str_includes t) hint_keywords \<or>
     (\<forall>m kv tcs. matchTestcases t = Some m \<and> parse m = Some (JObj kv) \<and>
        map_of kv ''testcases'' = Some (JArr tcs) \<longrightarrow> tcs = [])"
  shows "extractAndPushTestcases parse r t s = s"
proof (cases "r \<in> extractedTestcaseReplies s \<or> length t < 100 \<or>
     \<not> list_ex (str_includes t) hint_keywords")
  case True
  then show ?thesis by (auto simp: extractAndPushTestcases_def)
next
  case False
  with assms have empty: "\<And>m kv tcs. matchTestcases t = Some m \<Longrightarrow> parse m = Some (JObj kv) \<Longrightarrow>
        map_of kv ''testcases'' = Some (JArr tcs) \<Longrightarrow> tcs = []"
    by blast
  show ?thesis
  proof (cases "matchTestcases t")
    case None
    then show ?thesis by (simp add: extractAndPushTestcases_def)
  next
    case (Some m)
    show ?thesis
    proof (cases "parse m")
      case None
      with Some show ?thesis by (simp add: extractAndPushTestcases_def)
    next
      case (Some d)
      note pd = this
      show ?thesis
      proof (cases d)
        case (JObj kv)
        show ?thesis
        proof (cases "map_of kv ''testcases''")
          case None
          with \<open>matchTestcases t = Some m\<close> pd JObj show ?thesis
            by (simp add: extractAndPushTestcases_def)
        next
          case (Some v)
          show ?thesis
          proof (cases v)
            case (JArr tcs)
            with empty [OF \<open>matchTestcases t = Some m\<close>, of kv tcs] pd JObj Some
            have "tcs = []" by simp
            with \<open>matchTestcases t = Some m\<close> pd JObj Some JArr show ?thesis
              by (simp add: extractAndPushTestcases_def)
          qed (use \<open>matchTestcases t = Some m\<close> pd JObj Some in
              \<open>simp_all add: extractAndPushTestcases_def\<close>)
        qed
      qed (use \<open>matchTestcases t = Some m\<close> pd in \<open>simp_all add: extractAndPushTestcases_def\<close>)
    qed
  qed
qed

lemma extract_short:
  "length t < 100 \<Longrightarrow> extractAndPushTestcases parse r t s = s"
  by (simp add: extractAndPushTestcases_def)

lemma handleTextEvent_extracts:
  assumes "pendingReplies s r = Some reply"
  shows "\<exists>s'. handleAgentEvent cfg parse r (TextEvent c) s =
               extractAndPushTestcases parse r (accumulatedText r s @ c) s' \<and>
             extractedTestcaseReplies s' = extractedTestcaseReplies s \<and>
             accumulatedText r s' = accumulatedText r s @ c"
  by (subst handleTextEvent_unfold [OF assms], intro exI conjI, rule refl)
    (simp_all add: accumulatedText_def assms split: list.split)

lemma handleAgentMessage_unfold:
  assumes "pendingReplies s r = Some reply"
  shows "\<exists>msgs. handleAgentMessage parse r msg s =
     extractAndPushTestcases parse r (messageText msg)
       (if messageText msg \<noteq> []
        then pushToSSEQueue r (Some (Chunk (messageText msg)))
          (if messageThinking msg \<noteq> []
           then pushToSSEQueue r (Some (Thinking (messageThinking msg)))
                  (s\<lparr>pendingReplies := (pendingReplies s)(r \<mapsto> reply\<lparr>messages := msgs\<rparr>)\<rparr>)
           else s\<lparr>pendingReplies := (pendingReplies s)(r \<mapsto> reply\<lparr>messages := msgs\<rparr>)\<rparr>)
        else
          (if messageThinking msg \<noteq> []
           then pushToSSEQueue r (Some (Thinking (messageThinking msg)))
                  (s\<lparr>pendingReplies := (pendingReplies s)(r \<mapsto> reply\<lparr>messages := msgs\<rparr>)\<rparr>)
           else s\<lparr>pendingReplies := (pendingReplies s)(r \<mapsto> reply\<lparr>messages := msgs\<rparr>)\<rparr>))"
  unfolding handleAgentMessage_def Let_def assms option.case by blast

lemma handleAgentMessage_extracts:
  assumes "pendingReplies s r = Some reply"
  shows "\<exists>s'. handleAgentMessage parse r msg s =
               extractAndPushTestcases parse r (messageText msg) s' \<and>
             extractedTestcaseReplies s' = extractedTestcaseReplies s"
proof -
  from handleAgentMessage_unfold [OF assms, of parse msg]
  obtain msgs where eq: "handleAgentMessage parse r msg s =
     extractAndPushTestcases parse r (messageText msg)
       (if messageText msg \<noteq> []
        then pushToSSEQueue r (Some (Chunk (messageText msg)))
          (if messageThinking msg \<noteq> []
           then pushToSSEQueue r (Some (Thinking (messageThinking msg)))
                  (s\<lparr>pendingReplies := (pendingReplies s)(r \<mapsto> reply\<lparr>messages := msgs\<rparr>)\<rparr>)
           else s\<lparr>pendingReplies := (pendingReplies s)(r \<mapsto> reply\<lparr>messages := msgs\<rparr>)\<rparr>)
        else
          (if messageThinking msg \<noteq> []
           then pushToSSEQueue r (Some (Thinking (messageThinking msg)))
                  (s\<lparr>pendingReplies := (pendingReplies s)(r \<mapsto> reply\<lparr>messages := msgs\<rparr>)\<rparr>)
           else s\<lparr>pendingReplies := (pendingReplies s)(r \<mapsto> reply\<lparr>messages := msgs\<rparr>)\<rparr>))"
    by blast
  show ?thesis
    by (rule exI, rule conjI, rule eq) simp
qed

lemma length_pad90: "length pad90 = 90"
  by (simp add: pad90_def)

lemma length_doc0: "length doc0 = 17"
  by (simp add: doc0_def quoted_def)

lemma messageText_legacy0: "messageText (legacy0 t) = t"
  by (simp add: messageText_def legacy0_def)

lemma messageThinking_legacy0: "messageThinking (legacy0 t) = []"
  by (simp add: messageThinking_def legacy0_def)

lemma legacy_a:
  "handleAgentMessage parse0 ''r1'' (legacy0 pad90) started0 =
     pushToSSEQueue ''r1'' (Some (Chunk pad90))
       (started0\<lparr>pendingReplies := (pendingReplies started0)(''r1'' \<mapsto>
          \<lparr>pr_conversationId = ''c1'', pr_replyId = ''r1'', pr_userId = ''u1'',
           messages = [\<lparr>msg_id = Some ''m1'', accumulated_content = Some pad90,
                        msg_content = ContentString pad90, msg_role = None\<rparr>],
           finished = False, cancelled = False\<rparr>)\<rparr>)"
proof -
  have ne: "pad90 \<noteq> []" using length_pad90 by auto
  show ?thesis
    unfolding handleAgentMessage_def Let_def started0_pending option.case
      messageText_legacy0 messageThinking_legacy0
    by (simp add: extract_short length_pad90 ne legacy0_def)
qed


lemma legacy_a_pending:
  "pendingReplies (handleAgentMessage parse0 ''r1'' (legacy0 pad90) started0) ''r1'' =
     Some \<lparr>pr_conversationId = ''c1'', pr_replyId = ''r1'', pr_userId = ''u1'',
           messages = [\<lparr>msg_id = Some ''m1'', accumulated_content = Some pad90,
                        msg_content = ContentString pad90, msg_role = None\<rparr>],
           finished = False, cancelled = False\<rparr>"
  by (simp add: legacy_a)

lemma legacy_a_callbacks:
  "messageCallbacks (handleAgentMessage parse0 ''r1'' (legacy0 pad90) started0) ''r1'' =
     Some [[Some (Chunk pad90)]]"
  by (simp add: legacy_a pushToSSEQueue_callbacks started0_callbacks)

lemma legacy_b:
  "handleAgentMessage parse0 ''r1'' (legacy0 doc0)
     (handleAgentMessage parse0 ''r1'' (legacy0 pad90) started0) =
   pushToSSEQueue ''r1'' (Some (Chunk doc0))
     ((handleAgentMessage parse0 ''r1'' (legacy0 pad90) started0)
        \<lparr>pendingReplies :=
           (pendingReplies (handleAgentMessage parse0 ''r1'' (legacy0 pad90) started0))
           (''r1'' \<mapsto>
              \<lparr>pr_conversationId = ''c1'', pr_replyId = ''r1'', pr_userId = ''u1'',
               messages = [\<lparr>msg_id = Some ''m1'', accumulated_content = Some (pad90 @ doc0),
                            msg_content = ContentBlocks [TextBlock (Some (pad90 @ doc0))],
                            msg_role = None\<rparr>],
               finished = False, cancelled = False\<rparr>)\<rparr>)"
proof -
  have ne: "doc0 \<noteq> []" using length_doc0 by auto
  show ?thesis
    unfolding handleAgentMessage_def [of parse0 "''r1''" "legacy0 doc0"] Let_def
      legacy_a_pending option.case messageText_legacy0 messageThinking_legacy0
    by (simp add: extract_short length_doc0 ne legacy0_def)
qed

lemma legacy_two_pieces:
  "accumulatedText ''r1''
     (handleAgentMessage parse0 ''r1'' (legacy0 doc0)
        (handleAgentMessage parse0 ''r1'' (legacy0 pad90) started0)) = pad90 @ doc0 \<and>
   messageCallbacks
     (handleAgentMessage parse0 ''r1'' (legacy0 doc0)
        (handleAgentMessage parse0 ''r1'' (legacy0 pad90) started0)) ''r1'' =
     Some [[Some (Chunk pad90), Some (Chunk doc0)]]"
  by (simp add: legacy_b accumulatedText_def pushToSSEQueue_callbacks legacy_a_callbacks)

lemma hint_doc0_after: "list_ex (str_includes (xs @ doc0)) hint_keywords"
  by (simp add: hint_keywords_def str_includes_append str_includes_doc0)

lemma matchTestcases_pad90: "matchTestcases (pad90 @ doc0) = Some doc0"
proof -
  have "dropWhile (\<lambda>c. c \<noteq> 0x7B) (pad90 @ doc0) = dropWhile (\<lambda>c. c \<noteq> 0x7B) doc0"
    unfolding pad90_def by (rule dropWhile_append2) simp
  then show ?thesis
    using matchTestcases_doc0 by (simp add: matchTestcases_def)
qed

lemma structured_two_pieces:
  "messageCallbacks
     (handleAgentEvents cfg0 parse0 ''r1'' [TextEvent pad90, TextEvent doc0] started0) ''r1'' =
     Some [[Some (Chunk pad90), Some (Chunk doc0),
            Some (Testcases (JStr ''unknown'') (JNum 1) [JNum 1])]]"
proof -
  define s1 where "s1 = handleAgentEvent cfg0 parse0 ''r1'' (TextEvent pad90) started0"
  have acc0: "accumulatedText ''r1'' started0 = []"
    by (simp add: accumulatedText_def started0_pending)
  have s1: "s1 = pushToSSEQueue ''r1'' (Some (Chunk pad90))
       (started0\<lparr>pendingReplies := (pendingReplies started0)(''r1'' \<mapsto>
          \<lparr>pr_conversationId = ''c1'', pr_replyId = ''r1'', pr_userId = ''u1'',
           messages = [\<lparr>msg_id = None, accumulated_content = Some pad90,
                        msg_content = ContentBlocks [TextBlock (Some pad90)],
                        msg_role = Some ''assistant''\<rparr>],
           finished = False, cancelled = False\<rparr>)\<rparr>)"
    unfolding s1_def
    by (subst handleTextEvent_unfold [OF started0_pending])
      (simp add: acc0 extract_short length_pad90)
  have p1: "pendingReplies s1 ''r1'' =
     Some \<lparr>pr_conversationId = ''c1'', pr_replyId = ''r1'', pr_userId = ''u1'',
           messages = [\<lparr>msg_id = None, accumulated_content = Some pad90,
                        msg_content = ContentBlocks [TextBlock (Some pad90)],
                        msg_role = Some ''assistant''\<rparr>],
           finished = False, cancelled = False\<rparr>"
    by (simp add: s1)
  have acc1: "accumulatedText ''r1'' s1 = pad90"
    by (simp add: accumulatedText_def p1)
  have cb1: "messageCallbacks s1 ''r1'' = Some [[Some (Chunk pad90)]]"
    by (simp add: s1 pushToSSEQueue_callbacks started0_callbacks)
  have ex1: "extractedTestcaseReplies s1 = {}"
    by (simp add: s1 started0_extracted)
  define s1' where "s1' = pushToSSEQueue ''r1'' (Some (Chunk doc0))
          (s1\<lparr>pendingReplies := (pendingReplies s1)(''r1'' \<mapsto>
             \<lparr>pr_conversationId = ''c1'', pr_replyId = ''r1'', pr_userId = ''u1'',
              messages = [\<lparr>msg_id = None, accumulated_content = Some (pad90 @ doc0),
                           msg_content = ContentBlocks [TextBlock (Some (pad90 @ doc0))],
                           msg_role = Some ''assistant''\<rparr>],
              finished = False, cancelled = False\<rparr>)\<rparr>)"
  have s2: "handleAgentEvent cfg0 parse0 ''r1'' (TextEvent doc0) s1 =
      extractAndPushTestcases parse0 ''r1'' (pad90 @ doc0) s1'"
    unfolding s1'_def
    by (subst handleTextEvent_unfold [OF p1]) (simp add: acc1 p1)
  have nin: "''r1'' \<notin> extractedTestcaseReplies s1'"
    by (simp add: s1'_def ex1)
  have cb1': "messageCallbacks s1' ''r1'' = Some [[Some (Chunk pad90), Some (Chunk doc0)]]"
    by (simp add: s1'_def pushToSSEQueue_callbacks cb1)
  have len: "100 \<le> length (pad90 @ doc0)"
    by (simp add: length_pad90 length_doc0)
  have p: "parse0 doc0 = Some (JObj [(''testcases'', JArr [JNum 1])])"
    by (simp add: parse0_def)
  have tc: "map_of [(''testcases'', JArr [JNum 1])] ''testcases'' = Some (JArr [JNum 1])"
    by simp
  have ne: "[JNum 1] \<noteq> []" by simp
  note em = extractAndPushTestcases_emits [where parse = parse0,
      OF nin len hint_doc0_after matchTestcases_pad90 p tc ne]
  have "messageCallbacks (handleAgentEvent cfg0 parse0 ''r1'' (TextEvent doc0) s1) ''r1'' =
     Some [[Some (Chunk pad90), Some (Chunk doc0),
            Some (Testcases (JStr ''unknown'') (JNum 1) [JNum 1])]]"
    by (simp only: s2 em) (simp add: pushToSSEQueue_callbacks cb1')
  then show ?thesis
    by (simp add: handleAgentEvents_def started0_pending s1_def)
qed

lemma testcases_onceI:
  assumes "\<And>r cbs cb. messageCallbacks s r = Some cbs \<Longrightarrow> cb \<in> set cbs \<Longrightarrow>
     length (filter is_testcases cb) \<le> (if r \<in> extractedTestcaseReplies s then 1 else 0)"
  shows "testcases_once s"
  unfolding testcases_once_def using assms by blast

lemma testcases_onceD:
  assumes "testcases_once s" and "messageCallbacks s r = Some cbs" and "cb \<in> set cbs"
  shows "length (filter is_testcases cb) \<le> (if r \<in> extractedTestcaseReplies s then 1 else 0)"
  using assms unfolding testcases_once_def by blast

lemma testcases_once_cong:
  assumes "testcases_once s" and "messageCallbacks s' = messageCallbacks s"
    and "extractedTestcaseReplies s' = extractedTestcaseReplies s"
  shows "testcases_once s'"
proof (rule testcases_onceI)
  fix r cbs cb
  assume "messageCallbacks s' r = Some cbs" and cb: "cb \<in> set cbs"
  then have "messageCallbacks s r = Some cbs" by (simp only: assms(2))
  from testcases_onceD [OF assms(1) this cb]
  show "length (filter is_testcases cb) \<le> (if r \<in> extractedTestcaseReplies s' then 1 else 0)"
    by (simp only: assms(3))
qed

lemma pushToSSEQueue_callbacks_other:
  "r' \<noteq> r \<Longrightarrow> messageCallbacks (pushToSSEQueue r m s) r' = messageCallbacks s r'"
  by (simp add: pushToSSEQueue_callbacks)

lemma pushToSSEQueue_callbacks_same:
  "messageCallbacks (pushToSSEQueue r m s) r =
     map_option (map (\<lambda>cb. cb @ [m])) (messageCallbacks s r)"
  by (simp add: pushToSSEQueue_callbacks)

lemma pushToSSEQueue_received:
  assumes "messageCallbacks (pushToSSEQueue r m s) r = Some cbs" and "cb \<in> set cbs"
  shows "\<exists>cbs0 cb0. messageCallbacks s r = Some cbs0 \<and> cb0 \<in> set cbs0 \<and> cb = cb0 @ [m]"
proof (cases "messageCallbacks s r")
  case None
  with assms(1) show ?thesis by (simp add: pushToSSEQueue_callbacks_same)
next
  case (Some cbs0)
  with assms(1) have "cbs = map (\<lambda>cb. cb @ [m]) cbs0"
    by (simp add: pushToSSEQueue_callbacks_same)
  with assms(2) obtain cb0 where "cb0 \<in> set cbs0" and "cb = cb0 @ [m]" by auto
  with Some show ?thesis by blast
qed

lemma testcases_once_push:
  assumes "testcases_once s" and "\<not> is_testcases m"
  shows "testcases_once (pushToSSEQueue r m s)"
proof (rule testcases_onceI)
  fix r' cbs cb
  assume cbs: "messageCallbacks (pushToSSEQueue r m s) r' = Some cbs" and cb: "cb \<in> set cbs"
  have goal: "length (filter is_testcases cb) \<le>
        (if r' \<in> extractedTestcaseReplies s then 1 else 0)"
  proof (cases "r' = r")
    case False
    with cbs have "messageCallbacks s r' = Some cbs"
      by (simp add: pushToSSEQueue_callbacks_other)
    from testcases_onceD [OF assms(1) this cb] show ?thesis .
  next
    case True
    from pushToSSEQueue_received [OF cbs [unfolded True] cb]
    obtain cbs0 cb0 where c0: "messageCallbacks s r = Some cbs0" and in0: "cb0 \<in> set cbs0"
      and eq: "cb = cb0 @ [m]" by blast
    from testcases_onceD [OF assms(1) c0 in0]
    have "length (filter is_testcases cb0) \<le> (if r \<in> extractedTestcaseReplies s then 1 else 0)" .
    moreover have "filter is_testcases cb = filter is_testcases cb0"
      using assms(2) eq by simp
    ultimately show ?thesis by (simp only: True)
  qed
  then show "length (filter is_testcases cb) \<le>
        (if r' \<in> extractedTestcaseReplies (pushToSSEQueue r m s) then 1 else 0)"
    by (simp only: pushToSSEQueue_frame)
qed


lemma extractAndPushTestcases_cases_strong:
  "extractAndPushTestcases p r t s = s \<or>
   (r \<notin> extractedTestcaseReplies s \<and>
    (\<exists>st n tcs. extractAndPushTestcases p r t s =
      pushToSSEQueue r (Some (Testcases st n tcs))
        (s\<lparr>extractedTestcaseReplies := insert r (extractedTestcaseReplies s)\<rparr>)))"
proof (cases "r \<in> extractedTestcaseReplies s")
  case True
  then show ?thesis by (simp add: extractAndPushTestcases_def)
next
  case False
  with extractAndPushTestcases_cases [of p r t s] show ?thesis by blast
qed

lemma testcases_once_emit:
  assumes "testcases_once s" and "r \<notin> extractedTestcaseReplies s"
  shows "testcases_once
     (pushToSSEQueue r (Some (Testcases st n tcs))
        (s\<lparr>extractedTestcaseReplies := insert r (extractedTestcaseReplies s)\<rparr>))"
proof (rule testcases_onceI)
  let ?m = "Some (Testcases st n tcs)"
  let ?s0 = "s\<lparr>extractedTestcaseReplies := insert r (extractedTestcaseReplies s)\<rparr>"
  fix r' cbs cb
  assume cbs: "messageCallbacks (pushToSSEQueue r ?m ?s0) r' = Some cbs" and cb: "cb \<in> set cbs"
  have ext: "extractedTestcaseReplies (pushToSSEQueue r ?m ?s0) =
      insert r (extractedTestcaseReplies s)"
    by simp
  have cb0: "messageCallbacks ?s0 = messageCallbacks s" by simp
  have "length (filter is_testcases cb) \<le>
        (if r' \<in> insert r (extractedTestcaseReplies s) then 1 else 0)"
  proof (cases "r' = r")
    case False
    with cbs have "messageCallbacks s r' = Some cbs"
      by (simp add: pushToSSEQueue_callbacks_other)
    from testcases_onceD [OF assms(1) this cb] False show ?thesis by simp
  next
    case True
    from pushToSSEQueue_received [OF cbs [unfolded True] cb]
    obtain cbs0 cb0 where c0: "messageCallbacks ?s0 r = Some cbs0" and in0: "cb0 \<in> set cbs0"
      and eq: "cb = cb0 @ [?m]" by blast
    from c0 have c0': "messageCallbacks s r = Some cbs0" by (simp only: cb0)
    from testcases_onceD [OF assms(1) c0' in0] assms(2)
    have "length (filter is_testcases cb0) = 0" by simp
    with eq True show ?thesis by simp
  qed
  then show "length (filter is_testcases cb) \<le>
        (if r' \<in> extractedTestcaseReplies (pushToSSEQueue r ?m ?s0) then 1 else 0)"
    by (simp only: ext)
qed

lemma testcases_once_extract:
  assumes "testcases_once s"
  shows "testcases_once (extractAndPushTestcases p r t s)"
proof -
  from extractAndPushTestcases_cases_strong [of p r t s] show ?thesis
  proof
    assume "extractAndPushTestcases p r t s = s"
    with assms show ?thesis by simp
  next
    assume "r \<notin> extractedTestcaseReplies s \<and>
      (\<exists>st n tcs. extractAndPushTestcases p r t s =
        pushToSSEQueue r (Some (Testcases st n tcs))
          (s\<lparr>extractedTestcaseReplies := insert r (extractedTestcaseReplies s)\<rparr>))"
    then obtain st n tcs where nin: "r \<notin> extractedTestcaseReplies s"
      and eq: "extractAndPushTestcases p r t s =
        pushToSSEQueue r (Some (Testcases st n tcs))
          (s\<lparr>extractedTestcaseReplies := insert r (extractedTestcaseReplies s)\<rparr>)"
      by blast
    show ?thesis unfolding eq using assms nin by (rule testcases_once_emit)
  qed
qed

lemma testcases_once_pending_update:
  assumes "testcases_once s"
  shows "testcases_once (s\<lparr>pendingReplies := pr\<rparr>)"
  using assms by (rule testcases_once_cong) simp_all

lemma testcases_once_handleAgentEvent:
  assumes "testcases_once s"
  shows "testcases_once (handleAgentEvent cfg p r ev s)"
proof (cases ev)
  case (TextEvent c)
  show ?thesis
  proof (cases "pendingReplies s r")
    case None
    with TextEvent assms show ?thesis by simp
  next
    case (Some reply)
    show ?thesis
      unfolding TextEvent
      by (subst handleTextEvent_unfold [OF Some])
        (intro testcases_once_extract testcases_once_push testcases_once_pending_update assms,
          simp)
  qed
next
  case (ThinkingEvent c)
  have "testcases_once (pushToSSEQueue r (Some (Thinking c)) s)"
    using assms by (rule testcases_once_push) simp
  with ThinkingEvent show ?thesis by simp
next
  case (ToolCallEvent tid name inp)
  have a: "testcases_once (s\<lparr>hiddenToolCallIds := insert tid (hiddenToolCallIds s)\<rparr>)"
    using assms by (rule testcases_once_cong) simp_all
  have b: "testcases_once
      (pushToSSEQueue r (Some (ToolCall tid (getToolDisplayName cfg name) inp)) s)"
    using assms by (rule testcases_once_push) simp
  from a b ToolCallEvent show ?thesis by simp
next
  case (ToolResultEvent tid name out ok)
  have "testcases_once
      (pushToSSEQueue r (Some (ToolResult tid (getToolDisplayName cfg name) out ok)) s)"
    using assms by (rule testcases_once_push) simp
  with ToolResultEvent assms show ?thesis by simp
next
  case (CoordinatorEvent ty d)
  have "testcases_once (handleCoordinatorEvent r ty d s)"
    using assms by (rule testcases_once_cong) simp_all
  then have "testcases_once
      (pushToSSEQueue r (Some (Coordinator ty d)) (handleCoordinatorEvent r ty d s))"
    by (rule testcases_once_push) simp
  with CoordinatorEvent show ?thesis by simp
next
  case (UnknownEvent ty)
  with assms show ?thesis by simp
qed

lemma testcases_once_handleAgentEvents:
  assumes "testcases_once s"
  shows "testcases_once (handleAgentEvents cfg p r evs s)"
proof -
  have "testcases_once s \<Longrightarrow>
    testcases_once (foldl (\<lambda>st ev. handleAgentEvent cfg p r ev st) s evs)" for s
    by (induction evs arbitrary: s) (simp_all add: testcases_once_handleAgentEvent)
  with assms show ?thesis by (simp add: handleAgentEvents_def split: option.split)
qed


lemma testcases_once_handleAgentMessage:
  assumes "testcases_once s"
  shows "testcases_once (handleAgentMessage p r m s)"
proof (cases "pendingReplies s r")
  case None
  with assms show ?thesis by (simp add: handleAgentMessage_def)
next
  case (Some reply)
  obtain rp tx thk where eq: "handleAgentMessage p r m s =
      extractAndPushTestcases p r tx
        (if tx \<noteq> [] then pushToSSEQueue r (Some (Chunk tx))
           (if thk \<noteq> [] then pushToSSEQueue r (Some (Thinking thk))
              (s\<lparr>pendingReplies := (pendingReplies s)(r \<mapsto> rp)\<rparr>)
            else s\<lparr>pendingReplies := (pendingReplies s)(r \<mapsto> rp)\<rparr>)
         else
           (if thk \<noteq> [] then pushToSSEQueue r (Some (Thinking thk))
              (s\<lparr>pendingReplies := (pendingReplies s)(r \<mapsto> rp)\<rparr>)
            else s\<lparr>pendingReplies := (pendingReplies s)(r \<mapsto> rp)\<rparr>))"
    unfolding handleAgentMessage_def Let_def Some option.case by blast
  let ?s1 = "s\<lparr>pendingReplies := (pendingReplies s)(r \<mapsto> rp)\<rparr>"
  let ?s2 = "if thk \<noteq> [] then pushToSSEQueue r (Some (Thinking thk)) ?s1 else ?s1"
  have base: "testcases_once ?s1"
    using assms by (rule testcases_once_pending_update)
  have p2: "testcases_once (pushToSSEQueue r (Some (Thinking thk)) ?s1)"
    using base by (rule testcases_once_push) simp
  from base p2 have s2: "testcases_once ?s2" by (simp only: if_split) blast
  have p3: "testcases_once (pushToSSEQueue r (Some (Chunk tx)) ?s2)"
    using s2 by (rule testcases_once_push) simp
  from s2 p3 have "testcases_once (if tx \<noteq> [] then pushToSSEQueue r (Some (Chunk tx)) ?s2 else ?s2)"
    by (simp only: if_split) blast
  then have "testcases_once (extractAndPushTestcases p r tx
      (if tx \<noteq> [] then pushToSSEQueue r (Some (Chunk tx)) ?s2 else ?s2))"
    by (rule testcases_once_extract)
  then show ?thesis unfolding eq .
qed

lemma testcases_once_terminateAgent:
  assumes "testcases_once s"
  shows "testcases_once (snd (terminateAgent r now s))"
proof (cases "pendingReplies s r")
  case None
  with assms show ?thesis by (simp add: terminateAgent_missing)
next
  case (Some reply)
  have "testcases_once (pushToSSEQueue r (Some (Cancelled cancelMessage)) s)"
    using assms by (rule testcases_once_push) simp
  then have "testcases_once
      (pushToSSEQueue r None (pushToSSEQueue r (Some (Cancelled cancelMessage)) s))"
    by (rule testcases_once_push) simp
  then show ?thesis
    by (rule testcases_once_cong) (simp_all add: terminateAgent_callbacks Some)
qed

lemma testcases_once_terminateConversation:
  assumes "testcases_once s"
  shows "testcases_once (terminateConversation c nowOf s)"
proof -
  have "testcases_once s \<Longrightarrow>
    testcases_once (foldl (\<lambda>st r. snd (terminateAgent r (nowOf r) st)) s rs)" for s rs
    by (induction rs arbitrary: s) (simp_all add: testcases_once_terminateAgent)
  with assms show ?thesis by (simp add: terminateConversation_def split: option.split)
qed

lemma testcases_once_handleAgentFinished:
  assumes "testcases_once s"
  shows "testcases_once (handleAgentFinished r now s)"
proof -
  have "testcases_once (pushToSSEQueue r None s)"
    using assms by (rule testcases_once_push) simp
  then show ?thesis by (rule testcases_once_cong) simp_all
qed

lemma testcases_once_register:
  assumes "testcases_once s"
  shows "testcases_once (registerSSECallback r s)"
proof (rule testcases_onceI)
  fix r' cbs cb
  assume cbs: "messageCallbacks (registerSSECallback r s) r' = Some cbs" and cb: "cb \<in> set cbs"
  have "length (filter is_testcases cb) \<le> (if r' \<in> extractedTestcaseReplies s then 1 else 0)"
  proof (cases "r' = r")
    case False
    with cbs have "messageCallbacks s r' = Some cbs" by (simp add: registerSSECallback_def)
    from testcases_onceD [OF assms this cb] show ?thesis .
  next
    case True
    show ?thesis
    proof (cases "messageCallbacks s r")
      case None
      with cbs True have "cbs = [[]]" by (simp add: registerSSECallback_def)
      with cb show ?thesis by simp
    next
      case (Some cbs0)
      with cbs True have "cbs = cbs0 @ [[]]" by (simp add: registerSSECallback_def)
      with cb have "cb \<in> set cbs0 \<or> cb = []" by auto
      then show ?thesis
      proof
        assume "cb \<in> set cbs0"
        from testcases_onceD [OF assms Some this] True show ?thesis by simp
      next
        assume "cb = []"
        then show ?thesis by simp
      qed
    qed
  qed
  then show "length (filter is_testcases cb) \<le>
      (if r' \<in> extractedTestcaseReplies (registerSSECallback r s) then 1 else 0)"
    by (simp only: registerSSECallback_frame)
qed

lemma testcases_once_remove:
  assumes "testcases_once s"
  shows "testcases_once (removeSSECallbacks r s)"
proof (rule testcases_onceI)
  fix r' cbs cb
  assume cbs: "messageCallbacks (removeSSECallbacks r s) r' = Some cbs" and cb: "cb \<in> set cbs"
  from cbs have "messageCallbacks s r' = Some cbs"
    by (cases "r' = r") (simp_all add: removeSSECallbacks_def)
  from testcases_onceD [OF assms this cb]
  show "length (filter is_testcases cb) \<le>
      (if r' \<in> extractedTestcaseReplies (removeSSECallbacks r s) then 1 else 0)"
    by (simp only: removeSSECallbacks_frame)
qed

lemma testcases_once_cleanup: "testcases_once (cleanup s)"
  by (rule testcases_onceI) (simp add: cleanup_def)

lemma testcases_once_step:
  assumes "testcases_once s"
  shows "testcases_once (step cfg p op s)"
proof (cases op)
  case (OpSpawnAgent ch ps)
  have "testcases_once (spawnAgent ch ps s)"
    using assms by (rule testcases_once_cong) simp_all
  with OpSpawnAgent show ?thesis by simp
next
  case (OpHandleAgentMessage r m)
  with assms show ?thesis by (simp add: testcases_once_handleAgentMessage)
next
  case (OpHandleAgentEvents r evs)
  with assms show ?thesis by (simp add: testcases_once_handleAgentEvents)
next
  case (OpHandleAgentFinished r now)
  with assms show ?thesis by (simp add: testcases_once_handleAgentFinished)
next
  case (OpTerminateAgent r now)
  with assms show ?thesis by (simp add: testcases_once_terminateAgent)
next
  case (OpTerminateConversation c nowOf)
  with assms show ?thesis by (simp add: testcases_once_terminateConversation)
next
  case (OpRegisterSSECallback r)
  with assms show ?thesis by (simp add: testcases_once_register)
next
  case (OpRemoveSSECallbacks r)
  with assms show ?thesis by (simp add: testcases_once_remove)
next
  case (OpExit r c)
  have "testcases_once (onExit r c s)"
    using assms by (rule testcases_once_cong) simp_all
  with OpExit show ?thesis by simp
next
  case OpCleanup
  then show ?thesis by (simp add: testcases_once_cleanup)
qed

lemma testcases_once_run:
  assumes "testcases_once s"
  shows "testcases_once (run cfg p ops s)"
proof -
  have "testcases_once s \<Longrightarrow> testcases_once (foldl (\<lambda>st op. step cfg p op st) s ops)" for s
    by (induction ops arbitrary: s) (simp_all add: testcases_once_step)
  with assms show ?thesis by (simp add: run_def)
qed

lemma testcases_once_empty: "testcases_once emptyManager"
  by (rule testcases_onceI) (simp add: emptyManager_def)

lemma testcases_at_most_once:
  assumes "messageCallbacks (run cfg p ops emptyManager) r = Some cbs" and "cb \<in> set cbs"
  shows "length (filter is_testcases cb) \<le> 1"
proof -
  have "testcases_once (run cfg p ops emptyManager)"
    using testcases_once_empty by (rule testcases_once_run)
  from testcases_onceD [OF this assms]
  show ?thesis by (simp split: if_splits)
qed

text \<open>
  C8 (as amended). \<open>extractAndPushTestcases\<close> pushes a \<open>testcases\<close> message, and
  sets the one-shot flag of the reply, exactly when the flag is unset, the text it is
  handed has at least 100 UTF-16 code units, it contains one of the four hint tokens,
  and the greedy match from the first opening brace to the last closing brace around
  \<open>"testcases"\<close> parses as a JSON object whose \<open>testcases\<close> is a non-empty array; the
  payload is \<open>{status ?? 'unknown', count ?? testcases.length, testcases}\<close>. In every
  other case the call changes nothing. Which text it is handed depends on the path: a
  text event of the structured path hands over the accumulated text of the reply, the
  content of the event included; a legacy message hands over the text of that message
  alone, not what has accumulated under its id. Neither path touches the one-shot flags
  before the extraction runs. In every state the manager reaches from its initial
  state, by any calls, every callback has received at most one \<open>testcases\<close> message.
\<close>

theorem testcases_extracted_once:
  "(r \<notin> extractedTestcaseReplies s \<and> 100 \<le> length t \<and>
    list_ex (str_includes t) hint_keywords \<and> matchTestcases t = Some m \<and>
    parse m = Some (JObj kv) \<and> map_of kv ''testcases'' = Some (JArr tcs) \<and> tcs \<noteq> [] \<longrightarrow>
      extractAndPushTestcases parse r t s =
        pushToSSEQueue r
          (Some (Testcases (nullish (map_of kv ''status'') (JStr ''unknown''))
                   (nullish (map_of kv ''count'') (JNum (int (length tcs)))) tcs))
          (s\<lparr>extractedTestcaseReplies := insert r (extractedTestcaseReplies s)\<rparr>)) \<and>
   (r \<in> extractedTestcaseReplies s \<or> length t < 100 \<or>
    \<not> list_ex (str_includes t) hint_keywords \<or>
    (\<forall>m kv tcs. matchTestcases t = Some m \<and> parse m = Some (JObj kv) \<and>
       map_of kv ''testcases'' = Some (JArr tcs) \<longrightarrow> tcs = []) \<longrightarrow>
      extractAndPushTestcases parse r t s = s) \<and>
   (\<forall>ops r' cbs cb.
      messageCallbacks (run cfg parse ops emptyManager) r' = Some cbs \<and> cb \<in> set cbs \<longrightarrow>
        length (filter is_testcases cb) \<le> 1) \<and>
   (\<forall>reply c. pendingReplies s r = Some reply \<longrightarrow>
      (\<exists>s'. handleAgentEvent cfg parse r (TextEvent c) s =
              extractAndPushTestcases parse r (accumulatedText r s @ c) s' \<and>
            extractedTestcaseReplies s' = extractedTestcaseReplies s \<and>
            accumulatedText r s' = accumulatedText r s @ c)) \<and>
   (\<forall>reply msg. pendingReplies s r = Some reply \<longrightarrow>
      (\<exists>s'. handleAgentMessage parse r msg s =
              extractAndPushTestcases parse r (messageText msg) s' \<and>
            extractedTestcaseReplies s' = extractedTestcaseReplies s))"
proof (intro conjI)
  show "r \<notin> extractedTestcaseReplies s \<and> 100 \<le> length t \<and>
    list_ex (str_includes t) hint_keywords \<and> matchTestcases t = Some m \<and>
    parse m = Some (JObj kv) \<and> map_of kv ''testcases'' = Some (JArr tcs) \<and> tcs \<noteq> [] \<longrightarrow>
      extractAndPushTestcases parse r t s =
        pushToSSEQueue r
          (Some (Testcases (nullish (map_of kv ''status'') (JStr ''unknown''))
                   (nullish (map_of kv ''count'') (JNum (int (length tcs)))) tcs))
          (s\<lparr>extractedTestcaseReplies := insert r (extractedTestcaseReplies s)\<rparr>)"
    using extractAndPushTestcases_emits [of r s t m parse kv tcs] by blast
  show "r \<in> extractedTestcaseReplies s \<or> length t < 100 \<or>
    \<not> list_ex (str_includes t) hint_keywords \<or>
    (\<forall>m kv tcs. matchTestcases t = Some m \<and> parse m = Some (JObj kv) \<and>
       map_of kv ''testcases'' = Some (JArr tcs) \<longrightarrow> tcs = []) \<longrightarrow>
      extractAndPushTestcases parse r t s = s"
    using extractAndPushTestcases_silent [of r s t parse] by blast
  show "\<forall>ops r' cbs cb.
      messageCallbacks (run cfg parse ops emptyManager) r' = Some cbs \<and> cb \<in> set cbs \<longrightarrow>
        length (filter is_testcases cb) \<le> 1"
    using testcases_at_most_once [of cfg parse] by blast
  show "\<forall>reply c. pendingReplies s r = Some reply \<longrightarrow>
      (\<exists>s'. handleAgentEvent cfg parse r (TextEvent c) s =
              extractAndPushTestcases parse r (accumulatedText r s @ c) s' \<and>
            extractedTestcaseReplies s' = extractedTestcaseReplies s \<and>
            accumulatedText r s' = accumulatedText r s @ c)"
    using handleTextEvent_extracts [of s r _ cfg parse] by blast
  show "\<forall>reply msg. pendingReplies s r = Some reply \<longrightarrow>
      (\<exists>s'. handleAgentMessage parse r msg s =
              extractAndPushTestcases parse r (messageText msg) s' \<and>
            extractedTestcaseReplies s' = extractedTestcaseReplies s)"
    using handleAgentMessage_extracts [of s r _ parse] by blast
qed

theorem testcases_extracted_once_witness:
  "extractAndPushTestcases parse0 ''r1'' text100 started0 =
     pushToSSEQueue ''r1'' (Some (Testcases (JStr ''unknown'') (JNum 1) [JNum 1]))
       (started0\<lparr>extractedTestcaseReplies := {''r1''}\<rparr>)"
  using testcases_extracted_once [where r = "''r1''" and s = started0 and t = text100
      and m = doc0 and parse = parse0 and kv = "[(''testcases'', JArr [JNum 1])]"
      and tcs = "[JNum 1]" and cfg = cfg0]
  by (simp add: started0_extracted length_text100 hint_text100 matchTestcases_text100 parse0_def)

text \<open>
  The claim as stated fails in two ways. The text must not exceed 100 characters: the
  guard is \<open>textContent.length < 100\<close>, and at a text of exactly 100 code units the
  event is emitted. And it is not always the accumulated text that is examined: when a
  text of 107 code units arrives in two pieces, 90 spaces and then the object, the
  structured path emits the event at the second piece, while the legacy path, with both
  pieces accumulated under one message id, examines each piece alone and emits nothing.
\<close>

theorem testcases_at_exactly_100_chars:
  "length text100 = 100 \<and>
   messageCallbacks (extractAndPushTestcases parse0 ''r1'' text100 started0) ''r1'' =
     Some [[Some (Testcases (JStr ''unknown'') (JNum 1) [JNum 1])]] \<and>
   messageCallbacks (handleAgentEvents cfg0 parse0 ''r1'' [TextEvent text100] started0) ''r1'' =
     Some [[Some (Chunk text100), Some (Testcases (JStr ''unknown'') (JNum 1) [JNum 1])]] \<and>
   length (pad90 @ doc0) = 107 \<and>
   messageCallbacks
     (handleAgentEvents cfg0 parse0 ''r1'' [TextEvent pad90, TextEvent doc0] started0) ''r1'' =
     Some [[Some (Chunk pad90), Some (Chunk doc0),
            Some (Testcases (JStr ''unknown'') (JNum 1) [JNum 1])]] \<and>
   accumulatedText ''r1''
     (handleAgentMessage parse0 ''r1'' (legacy0 doc0)
        (handleAgentMessage parse0 ''r1'' (legacy0 pad90) started0)) = pad90 @ doc0 \<and>
   messageCallbacks
     (handleAgentMessage parse0 ''r1'' (legacy0 doc0)
        (handleAgentMessage parse0 ''r1'' (legacy0 pad90) started0)) ''r1'' =
     Some [[Some (Chunk pad90), Some (Chunk doc0)]]"
proof -
  have a: "messageCallbacks (extractAndPushTestcases parse0 ''r1'' text100 started0) ''r1'' =
     Some [[Some (Testcases (JStr ''unknown'') (JNum 1) [JNum 1])]]"
    by (simp add: extract_text100 pushToSSEQueue_callbacks started0_callbacks)
  let ?s2 = "pushToSSEQueue ''r1'' (Some (Chunk text100))
      (started0\<lparr>pendingReplies := (pendingReplies started0)(''r1'' \<mapsto>
         \<lparr>pr_conversationId = ''c1'', pr_replyId = ''r1'', pr_userId = ''u1'',
          messages = [\<lparr>msg_id = None, accumulated_content = Some text100,
                       msg_content = ContentBlocks [TextBlock (Some text100)],
                       msg_role = Some ''assistant''\<rparr>],
          finished = False, cancelled = False\<rparr>)\<rparr>)"
  have ev: "handleAgentEvents cfg0 parse0 ''r1'' [TextEvent text100] started0 =
      extractAndPushTestcases parse0 ''r1'' text100 ?s2"
    by (simp add: handleAgentEvents_def started0_pending Let_def)
  have nin: "''r1'' \<notin> extractedTestcaseReplies ?s2"
    by (simp add: started0_extracted)
  have len: "100 \<le> length text100" by (simp add: length_text100)
  have p: "parse0 doc0 = Some (JObj [(''testcases'', JArr [JNum 1])])"
    by (simp add: parse0_def)
  have tc: "map_of [(''testcases'', JArr [JNum 1])] ''testcases'' = Some (JArr [JNum 1])"
    by simp
  have ne: "[JNum 1] \<noteq> []" by simp
  note em = extractAndPushTestcases_emits [where parse = parse0,
      OF nin len hint_text100 matchTestcases_text100 p tc ne]
  have b: "messageCallbacks (handleAgentEvents cfg0 parse0 ''r1'' [TextEvent text100] started0)
      ''r1'' =
     Some [[Some (Chunk text100), Some (Testcases (JStr ''unknown'') (JNum 1) [JNum 1])]]"
    by (simp only: ev em) (simp add: pushToSSEQueue_callbacks started0_callbacks)
  have l: "length (pad90 @ doc0) = 107"
    by (simp add: length_pad90 length_doc0)
  from legacy_two_pieces
  have c: "accumulatedText ''r1''
     (handleAgentMessage parse0 ''r1'' (legacy0 doc0)
        (handleAgentMessage parse0 ''r1'' (legacy0 pad90) started0)) = pad90 @ doc0"
    and e: "messageCallbacks
     (handleAgentMessage parse0 ''r1'' (legacy0 doc0)
        (handleAgentMessage parse0 ''r1'' (legacy0 pad90) started0)) ''r1'' =
     Some [[Some (Chunk pad90), Some (Chunk doc0)]]"
    by blast+
  show ?thesis
    by (intro conjI) (fact length_text100 a b l structured_two_pieces c e)+
qed
end
